theory Spec2Isabelle
  imports Complex_Main "HOL-Library.List_Lexorder" "HOL-Library.Char_ord" "HOL-Library.AList"
begin

section \<open>Data model (types.ts)\<close>

text \<open>
  Amounts are JavaScript numbers in the source. They are modelled as exact rationals:
  every theorem below is about the ledger arithmetic itself, not about binary
  floating-point rounding, and the amounts of a snapshot are finite numbers. Where the
  source compares a computed amount with a threshold (0.01, 99 percent of the shares,
  the bill amount) or rounds a half cent, binary floating point can decide an exact
  tie either way: 100 / 6 added six times is just above 100, and 2.01 / 2 * 100 is
  just below 100.5. The statements on the Payment Status Evaluator, the Balance
  Aggregator and proportional inference therefore do not say which way such a tie
  falls. A
  JavaScript object used as a dictionary (\<open>Record<string, T>\<close>) is an association
  list in insertion order; a well-formed object has each key once, and no key is the
  name of a property that every object inherits. Ids are compared as strings,
  character by character. A date-only ISO string (\<open>YYYY-MM-DD\<close>) is kept as its day
  number since 1970-01-01.
\<close>

type_synonym 'v obj = "(string \<times> 'v) list"

datatype BillStatus = Pending | Paid | Partial | Overdue

datatype SplitType = Mortgage | Even | Custom | Percentage | Items

datatype BillCategory =
  CatMortgage | CatUtility | CatInsurance | CatSubscription | CatGroceries
  | CatInternet | CatTransportation | CatMedical | CatOther

datatype RecordType = Forgiven | PaidOutside

record Person =
  person_id :: string
  person_name :: string
  mortgageShare :: rat

record ReceiptItem =
  item_id :: string
  item_name :: string
  item_amount :: rat
  assignedTo :: "string list"

record CoverageAllocation =
  payerId :: string
  coveredId :: string
  cov_amount :: rat

text \<open>
  The fields of \<open>Bill\<close> that the ledger functions read. An optional field
  (\<open>field?: T\<close>) and a nullable one (\<open>T | null\<close>) are options.
\<close>

record Bill =
  bill_id :: string
  bill_name :: string
  amount :: rat
  dueDate :: int
  category :: BillCategory
  splitType :: SplitType
  paidBy :: "string option"
  paidContributions :: "rat obj option"
  creditEarned :: "rat obj option"
  coverageAllocations :: "CoverageAllocation list option"
  isPaid :: bool
  customSplits :: "rat obj option"
  items :: "ReceiptItem list option"

record SettlementBreakdown =
  billId :: string
  billName :: string
  bd_category :: BillCategory
  bd_dueDate :: int
  totalAmount :: rat
  theirShare :: rat
  creditorPaid :: rat

record SettlementWithBreakdown =
  s_from :: string
  s_to :: string
  s_amount :: rat
  breakdown :: "SettlementBreakdown list"
  offsetBreakdown :: "SettlementBreakdown list option"
  grossOwed :: "rat option"
  grossOffset :: "rat option"
  forgiven :: "rat option"

record SettlementRecord =
  rec_id :: string
  fromId :: string
  toId :: string
  rec_amount :: rat
  rec_type :: RecordType

record BalanceEntry =
  personId :: string
  personName :: string
  owes :: rat

record SimpleSettlement =
  ss_from :: string
  ss_to :: string
  ss_amount :: rat

datatype error = TypeError

section \<open>JavaScript helpers\<close>

text \<open>\<open>x || 0\<close> on a number read from an object: a missing key reads as 0.\<close>

definition orZero :: "rat option \<Rightarrow> rat" where
  "orZero v = (case v of None \<Rightarrow> 0 | Some x \<Rightarrow> x)"

text \<open>A string is truthy when it is neither null nor empty.\<close>

definition truthy :: "string option \<Rightarrow> bool" where
  "truthy s = (case s of None \<Rightarrow> False | Some t \<Rightarrow> t \<noteq> [])"

text \<open>\<open>Object.values(o).reduce((sum, amt) => sum + amt, 0)\<close>\<close>

definition sumValues :: "rat obj \<Rightarrow> rat" where
  "sumValues ob = foldl (\<lambda>sum amt. sum + amt) 0 (map snd ob)"

text \<open>\<open>key in o\<close>\<close>

definition hasKey :: "string \<Rightarrow> 'v obj \<Rightarrow> bool" where
  "hasKey k ob = (map_of ob k \<noteq> None)"

text \<open>\<open>Math.round(x * 100) / 100\<close>; \<open>Math.round\<close> rounds a half towards plus infinity.\<close>

definition round2 :: "rat \<Rightarrow> rat" where
  "round2 x = of_int \<lfloor>x * 100 + 1 / 2\<rfloor> / 100"

text \<open>A \<open>forEach\<close> whose body may throw: the first exception ends the loop.\<close>

fun forEachE :: "('a \<Rightarrow> 's \<Rightarrow> error + 's) \<Rightarrow> 'a list \<Rightarrow> 's \<Rightarrow> error + 's" where
  "forEachE f [] s = Inr s"
| "forEachE f (x # xs) s = (case f x s of Inl e \<Rightarrow> Inl e | Inr s' \<Rightarrow> forEachE f xs s')"

section \<open>Share Calculator and Contribution Extractor (bill-utils.ts)\<close>

definition addItem :: "ReceiptItem \<Rightarrow> rat obj \<Rightarrow> rat obj" where
  "addItem item shares =
     (if length (assignedTo item) > 0 then
        (let perPerson = item_amount item / of_nat (length (assignedTo item)) in
         fold (\<lambda>pid sh. AList.update pid (orZero (map_of sh pid) + perPerson) sh)
           (assignedTo item) shares)
      else shares)"

definition calculateBillShares :: "Bill \<Rightarrow> Person list \<Rightarrow> rat obj" where
  "calculateBillShares bill members =
     (if splitType bill = Mortgage then
        fold (\<lambda>member sh. AList.update (person_id member) (mortgageShare member) sh) members []
      else if splitType bill = Even then
        (let evenShare = amount bill / of_nat (length members) in
         fold (\<lambda>member sh. AList.update (person_id member) evenShare sh) members [])
      else if splitType bill = Percentage \<and> customSplits bill \<noteq> None then
        fold (\<lambda>member sh.
               (let percentage = orZero (map_of (the (customSplits bill)) (person_id member)) in
                AList.update (person_id member) ((percentage / 100) * amount bill) sh))
          members []
      else if splitType bill = Custom \<and> customSplits bill \<noteq> None then
        the (customSplits bill)
      else if splitType bill = Items \<and> items bill \<noteq> None then
        fold addItem (the (items bill))
          (fold (\<lambda>member sh. AList.update (person_id member) 0 sh) members [])
      else [])"

definition getBillContributions :: "Bill \<Rightarrow> rat obj" where
  "getBillContributions bill =
     (case paidContributions bill of
        Some pc \<Rightarrow> pc
      | None \<Rightarrow> (if truthy (paidBy bill) then [(the (paidBy bill), amount bill)] else []))"

section \<open>Payment Status Evaluator (types.ts)\<close>

text \<open>
  \<open>new Date(bill.dueDate)\<close> of a date-only string is midnight UTC of that day, in
  milliseconds since the epoch; \<open>now\<close> stands for \<open>new Date()\<close>, the instant of the call.
\<close>

definition msPerDay :: int where
  "msPerDay = 86400000"

definition getBillStatus :: "int \<Rightarrow> Bill \<Rightarrow> BillStatus" where
  "getBillStatus now bill =
     (if isPaid bill then Paid
      else if paidContributions bill \<noteq> None
              \<and> sumValues (the (paidContributions bill)) > 0
              \<and> sumValues (the (paidContributions bill)) < amount bill then Partial
      else if dueDate bill * msPerDay < now then Overdue else Pending)"

section \<open>Balance Aggregator (settlements.ts)\<close>

text \<open>The filter that both the aggregator and the resolver apply to the bill list.\<close>

definition paidBillFilter :: "Bill \<Rightarrow> bool" where
  "paidBillFilter bill =
     ((isPaid bill \<and> (truthy (paidBy bill) \<or> paidContributions bill \<noteq> None))
      \<or> (paidContributions bill \<noteq> None
          \<and> list_ex (\<lambda>amt. amt > 0) (map snd (the (paidContributions bill)))))"

text \<open>
  \<open>balances[k] += v\<close>. Every roster id is initialised to 0 before any bill is read and
  only roster ids are read back; under a key outside the roster JavaScript stores NaN,
  which no output reads, so the model leaves the object unchanged there.
\<close>

definition addTo :: "string \<Rightarrow> rat \<Rightarrow> rat obj \<Rightarrow> rat obj" where
  "addTo k v balances =
     (case map_of balances k of
        Some x \<Rightarrow> AList.update k (x + v) balances
      | None \<Rightarrow> balances)"

definition balanceBill :: "Person list \<Rightarrow> Bill \<Rightarrow> rat obj \<Rightarrow> rat obj" where
  "balanceBill members bill balances =
     (let shares = calculateBillShares bill members;
          contributions = getBillContributions bill;
          totalPaid = sumValues contributions;
          totalShares = sumValues shares
      in if totalPaid < 1 / 100 \<or> totalShares < 1 / 100 then balances
         else
           (let paidRatio = min (totalPaid / totalShares) 1;
                b1 = fold (\<lambda>(pid, share) bal.
                             (let paid = orZero (map_of contributions pid);
                                  proportionalShare = share * paidRatio
                              in addTo pid (proportionalShare - paid) bal))
                       shares balances
            in fold (\<lambda>(payer, amountPaid) bal.
                       if \<not> hasKey payer shares then addTo payer (- amountPaid) bal else bal)
                 contributions b1))"

definition rawBalances :: "Bill list \<Rightarrow> Person list \<Rightarrow> rat obj" where
  "rawBalances bills members =
     fold (balanceBill members) (filter paidBillFilter bills)
       (fold (\<lambda>member bal. AList.update (person_id member) 0 bal) members [])"

definition calculateBalances :: "Bill list \<Rightarrow> Person list \<Rightarrow> BalanceEntry list" where
  "calculateBalances bills members =
     (let balances = rawBalances bills members in
      map (\<lambda>member. \<lparr>personId = person_id member, personName = person_name member,
                      owes = round2 (the (map_of balances (person_id member)))\<rparr>) members)"

section \<open>Settlement Resolver (settlements.ts)\<close>

text \<open>
  \<open>billDebts\<close>: debtor id, then creditor id, then the breakdown items attributed so far.
  Reading a missing key gives \<open>undefined\<close> in the source, and using that as an object or
  an array throws a TypeError.
\<close>

type_synonym billDebts = "string \<rightharpoonup> (string \<rightharpoonup> SettlementBreakdown list)"

definition initBillDebts :: "Person list \<Rightarrow> billDebts" where
  "initBillDebts members =
     fold (\<lambda>debtor bd.
             bd(person_id debtor \<mapsto>
                  fold (\<lambda>creditor inner.
                          if person_id debtor \<noteq> person_id creditor
                          then inner(person_id creditor \<mapsto> []) else inner)
                    members Map.empty))
       members Map.empty"

definition lookupDebts :: "billDebts \<Rightarrow> string \<Rightarrow> string \<Rightarrow> SettlementBreakdown list option" where
  "lookupDebts bd d c = (case bd d of None \<Rightarrow> None | Some inner \<Rightarrow> inner c)"

text \<open>\<open>billDebts[d][c].push(item)\<close>\<close>

definition pushDebt :: "string \<Rightarrow> string \<Rightarrow> SettlementBreakdown \<Rightarrow> billDebts \<Rightarrow> error + billDebts" where
  "pushDebt d c item bd =
     (case bd d of
        None \<Rightarrow> Inl TypeError
      | Some inner \<Rightarrow>
          (case inner c of
             None \<Rightarrow> Inl TypeError
           | Some xs \<Rightarrow> Inr (bd(d \<mapsto> inner(c \<mapsto> xs @ [item])))))"

definition breakdownItem :: "Bill \<Rightarrow> rat \<Rightarrow> rat \<Rightarrow> SettlementBreakdown" where
  "breakdownItem bill share paid =
     \<lparr>billId = bill_id bill, billName = bill_name bill, bd_category = category bill,
      bd_dueDate = dueDate bill, totalAmount = amount bill, theirShare = share,
      creditorPaid = paid\<rparr>"

definition coverageStep :: "Bill \<Rightarrow> rat obj \<Rightarrow> CoverageAllocation \<Rightarrow> billDebts \<Rightarrow> error + billDebts" where
  "coverageStep bill shares coverage bd =
     (if cov_amount coverage > 1 / 100 then
        pushDebt (coveredId coverage) (payerId coverage)
          (breakdownItem bill (orZero (map_of shares (coveredId coverage))) (cov_amount coverage)) bd
      else Inr bd)"

definition netPositions :: "Bill \<Rightarrow> Person list \<Rightarrow> rat obj \<Rightarrow> rat obj \<Rightarrow> rat obj" where
  "netPositions bill members shares contributions =
     fold (\<lambda>m nets.
             (let share = orZero (map_of shares (person_id m));
                  paid = orZero (map_of contributions (person_id m));
                  creditTaken = (case creditEarned bill of
                                   None \<Rightarrow> 0
                                 | Some ce \<Rightarrow> orZero (map_of ce (person_id m)));
                  effectivePaid = paid - creditTaken
              in AList.update (person_id m) (share - effectivePaid) nets))
       members []"

text \<open>\<open>nets[m.id]\<close> for a roster member \<open>m\<close>.\<close>

definition netOf :: "rat obj \<Rightarrow> Person \<Rightarrow> rat" where
  "netOf nets m = the (map_of nets (person_id m))"

definition inferStep ::
  "Bill \<Rightarrow> rat obj \<Rightarrow> rat obj \<Rightarrow> rat \<Rightarrow> Person \<Rightarrow> Person \<Rightarrow> billDebts \<Rightarrow> error + billDebts" where
  "inferStep bill shares nets totalOwed debtor creditor bd =
     (let debtorOwes = netOf nets debtor;
          creditorOwed = \<bar>netOf nets creditor\<bar>;
          proportion = creditorOwed / totalOwed;
          amt = debtorOwes * proportion
      in if amt > 1 / 100 then
           pushDebt (person_id debtor) (person_id creditor)
             (breakdownItem bill (orZero (map_of shares (person_id debtor))) amt) bd
         else Inr bd)"

text \<open>The body of \<open>paidBills.forEach\<close>.\<close>

definition processBill :: "Person list \<Rightarrow> Bill \<Rightarrow> billDebts \<Rightarrow> error + billDebts" where
  "processBill members bill bd =
     (let shares = calculateBillShares bill members in
      if coverageAllocations bill \<noteq> None \<and> length (the (coverageAllocations bill)) > 0 then
        forEachE (coverageStep bill shares) (the (coverageAllocations bill)) bd
      else
        (let contributions = getBillContributions bill;
             totalPaid = sumValues contributions;
             totalShares = sumValues shares
         in if totalPaid < 1 / 100 \<or> totalShares < 1 / 100 then Inr bd
            else if \<not> (totalPaid \<ge> totalShares * (99 / 100)) then Inr bd
            else
              (let nets = netPositions bill members shares contributions;
                   billDebtors = filter (\<lambda>m. netOf nets m > 1 / 100) members;
                   billCreditors = filter (\<lambda>m. netOf nets m < - (1 / 100)) members;
                   totalOwed = foldl (\<lambda>sum c. sum + \<bar>netOf nets c\<bar>) 0 billCreditors
               in if totalOwed < 1 / 100 then Inr bd
                  else forEachE (\<lambda>debtor. forEachE (inferStep bill shares nets totalOwed debtor)
                                            billCreditors)
                         billDebtors bd)))"

definition processBills :: "Bill list \<Rightarrow> Person list \<Rightarrow> error + billDebts" where
  "processBills bills members =
     forEachE (processBill members) (filter paidBillFilter bills) (initBillDebts members)"

definition getForgivenBetween :: "SettlementRecord list option \<Rightarrow> string \<Rightarrow> string \<Rightarrow> rat" where
  "getForgivenBetween settlementRecords f t =
     (case settlementRecords of
        None \<Rightarrow> 0
      | Some rs \<Rightarrow> foldl (\<lambda>sum r. sum + rec_amount r) 0
                    (filter (\<lambda>r. fromId r = f \<and> toId r = t) rs))"

text \<open>\<open>Object.fromEntries(members.map((m) => [m.id, m.name]))\<close>\<close>

definition memberMap :: "Person list \<Rightarrow> string obj" where
  "memberMap members =
     fold (\<lambda>m mm. AList.update (person_id m) (person_name m) mm) members []"

definition totalOf :: "SettlementBreakdown list \<Rightarrow> rat" where
  "totalOf xs = foldl (\<lambda>sum b. sum + creditorPaid b) 0 xs"

definition netAmount ::
  "SettlementBreakdown list \<Rightarrow> SettlementBreakdown list \<Rightarrow> rat \<Rightarrow> rat \<Rightarrow> rat" where
  "netAmount aOwesB bOwesA forgivenAToB forgivenBToA =
     totalOf aOwesB - forgivenAToB - (totalOf bOwesA - forgivenBToA)"

text \<open>
  The netting step of the inner pair loop: from the two breakdown lists and the two
  forgiven totals of a pair, the settlement pushed, if any.
\<close>

definition emitSettlement ::
  "string obj \<Rightarrow> Person \<Rightarrow> Person \<Rightarrow> SettlementBreakdown list \<Rightarrow> SettlementBreakdown list
   \<Rightarrow> rat \<Rightarrow> rat \<Rightarrow> SettlementWithBreakdown option" where
  "emitSettlement mm personA personB aOwesB bOwesA forgivenAToB forgivenBToA =
     (let totalAOwesB = totalOf aOwesB;
          totalBOwesA = totalOf bOwesA;
          net = netAmount aOwesB bOwesA forgivenAToB forgivenBToA
      in if \<bar>net\<bar> > 1 / 100 then
           (if net > 0 then
              Some \<lparr>s_from = the (map_of mm (person_id personA)),
                    s_to = the (map_of mm (person_id personB)),
                    s_amount = round2 net,
                    breakdown = aOwesB,
                    offsetBreakdown = (if length bOwesA > 0 then Some bOwesA else None),
                    grossOwed = Some (round2 totalAOwesB),
                    grossOffset = (if length bOwesA > 0 then Some (round2 totalBOwesA) else None),
                    forgiven = (if forgivenAToB > 1 / 100 then Some (round2 forgivenAToB) else None)\<rparr>
            else
              Some \<lparr>s_from = the (map_of mm (person_id personB)),
                    s_to = the (map_of mm (person_id personA)),
                    s_amount = round2 \<bar>net\<bar>,
                    breakdown = bOwesA,
                    offsetBreakdown = (if length aOwesB > 0 then Some aOwesB else None),
                    grossOwed = Some (round2 totalBOwesA),
                    grossOffset = (if length aOwesB > 0 then Some (round2 totalAOwesB) else None),
                    forgiven = (if forgivenBToA > 1 / 100 then Some (round2 forgivenBToA) else None)\<rparr>)
         else None)"

text \<open>
  The body of the inner pair loop after its two guards: the settlement pushed for
  \<open>(personA, personB)\<close>, if any.
\<close>

definition settlePair ::
  "billDebts \<Rightarrow> SettlementRecord list option \<Rightarrow> string obj \<Rightarrow> Person \<Rightarrow> Person
   \<Rightarrow> error + SettlementWithBreakdown option" where
  "settlePair bd settlementRecords mm personA personB =
     (case lookupDebts bd (person_id personA) (person_id personB) of
        None \<Rightarrow> Inl TypeError
      | Some aOwesB \<Rightarrow>
     (case lookupDebts bd (person_id personB) (person_id personA) of
        None \<Rightarrow> Inl TypeError
      | Some bOwesA \<Rightarrow>
          Inr (emitSettlement mm personA personB aOwesB bOwesA
                 (getForgivenBetween settlementRecords (person_id personA) (person_id personB))
                 (getForgivenBetween settlementRecords (person_id personB) (person_id personA)))))"

text \<open>\<open>`${personA.id}-${personB.id}`\<close>\<close>

definition pairKey :: "Person \<Rightarrow> Person \<Rightarrow> string" where
  "pairKey personA personB = person_id personA @ ''-'' @ person_id personB"

text \<open>The body of the inner pair loop; the state is \<open>settlements\<close> and \<open>processed\<close>.\<close>

definition pairStep ::
  "billDebts \<Rightarrow> SettlementRecord list option \<Rightarrow> string obj \<Rightarrow> Person \<Rightarrow> Person
   \<Rightarrow> SettlementWithBreakdown list \<times> string set
   \<Rightarrow> error + SettlementWithBreakdown list \<times> string set" where
  "pairStep bd settlementRecords mm personA personB st =
     (if person_id personA \<ge> person_id personB then Inr st
      else if pairKey personA personB \<in> snd st then Inr st
      else
        (case settlePair bd settlementRecords mm personA personB of
           Inl e \<Rightarrow> Inl e
         | Inr None \<Rightarrow> Inr (fst st, insert (pairKey personA personB) (snd st))
         | Inr (Some s) \<Rightarrow> Inr (fst st @ [s], insert (pairKey personA personB) (snd st))))"

definition settleAll ::
  "billDebts \<Rightarrow> SettlementRecord list option \<Rightarrow> Person list
   \<Rightarrow> error + SettlementWithBreakdown list \<times> string set" where
  "settleAll bd settlementRecords members =
     forEachE (\<lambda>personA. forEachE (pairStep bd settlementRecords (memberMap members) personA) members)
       members ([], {})"

definition calculateSettlementsWithBreakdown ::
  "Bill list \<Rightarrow> Person list \<Rightarrow> SettlementRecord list option
   \<Rightarrow> error + SettlementWithBreakdown list" where
  "calculateSettlementsWithBreakdown bills members settlementRecords =
     (case processBills bills members of
        Inl e \<Rightarrow> Inl e
      | Inr bd \<Rightarrow>
          (case settleAll bd settlementRecords members of
             Inl e \<Rightarrow> Inl e
           | Inr st \<Rightarrow> Inr (fst st)))"

definition calculateSettlements ::
  "Bill list \<Rightarrow> Person list \<Rightarrow> SettlementRecord list option \<Rightarrow> error + SimpleSettlement list" where
  "calculateSettlements bills members settlementRecords =
     (case calculateSettlementsWithBreakdown bills members settlementRecords of
        Inl e \<Rightarrow> Inl e
      | Inr ss \<Rightarrow> Inr (map (\<lambda>s. \<lparr>ss_from = s_from s, ss_to = s_to s, ss_amount = s_amount s\<rparr>) ss))"

section \<open>Statements of the specification, for comparison\<close>

text \<open>
  The Contribution Extractor as the specification words it: the contributions map is
  used only when it is present and non-empty.
\<close>

definition getBillContributions_spec :: "Bill \<Rightarrow> rat obj" where
  "getBillContributions_spec bill =
     (if paidContributions bill \<noteq> None \<and> the (paidContributions bill) \<noteq> []
      then the (paidContributions bill)
      else if truthy (paidBy bill) then [(the (paidBy bill), amount bill)]
      else [])"

text \<open>
  The Payment Status Evaluator as the specification words it: the partial test uses the
  tolerance 0.01 on both sides, and a bill is overdue when its due day is before the
  local calendar day of \<open>now\<close>; \<open>tz\<close> is the zone's offset from UTC in milliseconds.
\<close>

definition localDay :: "int \<Rightarrow> int \<Rightarrow> int" where
  "localDay tz now = (now + tz) div msPerDay"

definition getBillStatus_spec :: "int \<Rightarrow> int \<Rightarrow> Bill \<Rightarrow> BillStatus" where
  "getBillStatus_spec tz now bill =
     (let totalPaid = sumValues (getBillContributions bill) in
      if isPaid bill then Paid
      else if 1 / 100 < totalPaid \<and> totalPaid < amount bill - 1 / 100 then Partial
      else if dueDate bill < localDay tz now then Overdue
      else Pending)"

text \<open>A JavaScript object has each key once.\<close>

definition wfObj :: "'v obj \<Rightarrow> bool" where
  "wfObj ob = distinct (map fst ob)"

text \<open>The two dictionaries of a bill that the aggregator iterates over are well formed.\<close>

definition wfBill :: "Bill \<Rightarrow> bool" where
  "wfBill bill =
     ((case paidContributions bill of None \<Rightarrow> True | Some pc \<Rightarrow> wfObj pc)
      \<and> (case customSplits bill of None \<Rightarrow> True | Some cs \<Rightarrow> wfObj cs))"

text \<open>
  The Balance Aggregator as the specification words it: what one bill adds to the
  balance of the roster member with id \<open>k\<close>. A skipped bill adds nothing; a share holder
  gets \<open>share * paidRatio - contribution\<close>; a payer absent from the shares map gets
  minus the full payment.
\<close>

definition billDelta :: "Person list \<Rightarrow> Bill \<Rightarrow> string \<Rightarrow> rat" where
  "billDelta members bill k =
     (let shares = calculateBillShares bill members;
          contributions = getBillContributions bill;
          totalPaid = sumValues contributions;
          totalShares = sumValues shares
      in if totalPaid < 1 / 100 \<or> totalShares < 1 / 100 then 0
         else (case map_of shares k of
                 Some share \<Rightarrow> share * min (totalPaid / totalShares) 1 - orZero (map_of contributions k)
               | None \<Rightarrow> (case map_of contributions k of
                            Some amountPaid \<Rightarrow> - amountPaid
                          | None \<Rightarrow> 0)))"

text \<open>Every share holder and every contributor of the bill is on the roster.\<close>

definition rosterBill :: "Person list \<Rightarrow> Bill \<Rightarrow> bool" where
  "rosterBill members bill =
     (set (map fst (calculateBillShares bill members)) \<subseteq> set (map person_id members)
      \<and> set (map fst (getBillContributions bill)) \<subseteq> set (map person_id members))"

text \<open>
  The amount by which the contributions to a bill exceed the total of its shares; 0 for
  a bill that the aggregator skips.
\<close>

definition overpayment :: "Person list \<Rightarrow> Bill \<Rightarrow> rat" where
  "overpayment members bill =
     (let totalPaid = sumValues (getBillContributions bill);
          totalShares = sumValues (calculateBillShares bill members)
      in if totalPaid < 1 / 100 \<or> totalShares < 1 / 100 then 0
         else max 0 (totalPaid - totalShares))"

text \<open>
  The proportional inference of the Settlement Resolver as the specification words it.
  A member's net position on a bill is the share minus the effective payment, the
  contribution less the credit the member earned on the bill.
\<close>

definition netPosition :: "Person list \<Rightarrow> Bill \<Rightarrow> string \<Rightarrow> rat" where
  "netPosition members bill k =
     (let share = orZero (map_of (calculateBillShares bill members) k);
          contribution = orZero (map_of (getBillContributions bill) k);
          credit = (case creditEarned bill of None \<Rightarrow> 0 | Some ce \<Rightarrow> orZero (map_of ce k));
          effectivePaid = contribution - credit
      in share - effectivePaid)"

text \<open>
  The resolver's test for a bill that counts as fully paid: something was paid, shares
  were assigned, and the total paid reaches 99 percent of the total shares.
\<close>

definition inferenceApplies :: "Person list \<Rightarrow> Bill \<Rightarrow> bool" where
  "inferenceApplies members bill =
     (let totalPaid = sumValues (getBillContributions bill);
          totalShares = sumValues (calculateBillShares bill members)
      in \<not> (totalPaid < 1 / 100 \<or> totalShares < 1 / 100) \<and> totalPaid \<ge> totalShares * (99 / 100))"

definition billDebtors :: "Person list \<Rightarrow> Bill \<Rightarrow> Person list" where
  "billDebtors members bill = filter (\<lambda>m. netPosition members bill (person_id m) > 1 / 100) members"

definition billCreditors :: "Person list \<Rightarrow> Bill \<Rightarrow> Person list" where
  "billCreditors members bill = filter (\<lambda>m. netPosition members bill (person_id m) < - (1 / 100)) members"

text \<open>The total overpayment of the bill's creditors.\<close>

definition totalOverpaid :: "Person list \<Rightarrow> Bill \<Rightarrow> rat" where
  "totalOverpaid members bill =
     sum_list (map (\<lambda>c. \<bar>netPosition members bill (person_id c)\<bar>) (billCreditors members bill))"

text \<open>
  What a debtor owes a creditor on the bill: the debtor's net position times the
  creditor's part of the total overpayment.
\<close>

definition inferredAmount :: "Person list \<Rightarrow> Bill \<Rightarrow> Person \<Rightarrow> Person \<Rightarrow> rat" where
  "inferredAmount members bill debtor creditor =
     netPosition members bill (person_id debtor)
       * (\<bar>netPosition members bill (person_id creditor)\<bar> / totalOverpaid members bill)"

definition inferredItem :: "Person list \<Rightarrow> Bill \<Rightarrow> Person \<times> Person \<Rightarrow> SettlementBreakdown" where
  "inferredItem members bill p =
     \<lparr>billId = bill_id bill, billName = bill_name bill, bd_category = category bill,
      bd_dueDate = dueDate bill, totalAmount = amount bill,
      theirShare = orZero (map_of (calculateBillShares bill members) (person_id (fst p))),
      creditorPaid = inferredAmount members bill (fst p) (snd p)\<rparr>"


section \<open>Auxiliary notions\<close>

text \<open>The ids of the roster.\<close>

definition roster :: "Person list \<Rightarrow> string set" where
  "roster members = set (map person_id members)"

text \<open>
  The debt table has a breakdown list exactly for the ordered pairs of distinct roster
  ids, as the resolver initialises it.
\<close>

definition debtsShape :: "Person list \<Rightarrow> billDebts \<Rightarrow> bool" where
  "debtsShape members bd =
     (\<forall>d c. (lookupDebts bd d c \<noteq> None) = (d \<in> roster members \<and> c \<in> roster members \<and> d \<noteq> c))"

text \<open>A sequence of pushes into the debt table, ended by the first one that throws.\<close>

fun pushAll :: "(string \<times> string \<times> SettlementBreakdown) list \<Rightarrow> billDebts \<Rightarrow> error + billDebts" where
  "pushAll [] bd = Inr bd"
| "pushAll ((d, c, item) # ps) bd =
     (case pushDebt d c item bd of Inl e \<Rightarrow> Inl e | Inr bd' \<Rightarrow> pushAll ps bd')"

text \<open>The items that a sequence of pushes adds from \<open>d\<close> to \<open>c\<close>.\<close>

definition itemsFor ::
  "(string \<times> string \<times> SettlementBreakdown) list \<Rightarrow> string \<Rightarrow> string \<Rightarrow> SettlementBreakdown list" where
  "itemsFor ps d c = map (\<lambda>p. snd (snd p)) (filter (\<lambda>p. fst p = d \<and> fst (snd p) = c) ps)"

text \<open>The pushes of a bill with coverage allocations, and of one without.\<close>

definition coveragePushes :: "Person list \<Rightarrow> Bill \<Rightarrow> (string \<times> string \<times> SettlementBreakdown) list" where
  "coveragePushes members bill =
     map (\<lambda>a. (coveredId a, payerId a,
                \<lparr>billId = bill_id bill, billName = bill_name bill, bd_category = category bill,
                 bd_dueDate = dueDate bill, totalAmount = amount bill,
                 theirShare = orZero (map_of (calculateBillShares bill members) (coveredId a)),
                 creditorPaid = cov_amount a\<rparr>))
       (filter (\<lambda>a. cov_amount a > 1 / 100) (the (coverageAllocations bill)))"

definition inferPushes :: "Person list \<Rightarrow> Bill \<Rightarrow> (string \<times> string \<times> SettlementBreakdown) list" where
  "inferPushes members bill =
     (if inferenceApplies members bill \<and> \<not> totalOverpaid members bill < 1 / 100 then
        map (\<lambda>p. (person_id (fst p), person_id (snd p), inferredItem members bill p))
          (filter (\<lambda>p. inferredAmount members bill (fst p) (snd p) > 1 / 100)
             (List.product (billDebtors members bill) (billCreditors members bill)))
      else [])"

text \<open>
  The test of the resolver for a bill with explicit coverage:
  \<open>bill.coverageAllocations && bill.coverageAllocations.length > 0\<close>.
\<close>

definition hasCoverage :: "Bill \<Rightarrow> bool" where
  "hasCoverage bill =
     (coverageAllocations bill \<noteq> None \<and> length (the (coverageAllocations bill)) > 0)"

text \<open>
  Every allocation above 0.01 of the bill names two distinct roster members, the pairs
  the debt table has a list for.
\<close>

definition validCoverage :: "Person list \<Rightarrow> Bill \<Rightarrow> bool" where
  "validCoverage members bill =
     (case coverageAllocations bill of
        None \<Rightarrow> True
      | Some cov \<Rightarrow>
          list_all (\<lambda>a. cov_amount a > 1 / 100 \<longrightarrow>
                          coveredId a \<in> roster members \<and> payerId a \<in> roster members
                          \<and> coveredId a \<noteq> payerId a) cov)"

text \<open>The items that one bill adds to the list from \<open>d\<close> to \<open>c\<close>.\<close>

definition attributed :: "Person list \<Rightarrow> Bill \<Rightarrow> string \<Rightarrow> string \<Rightarrow> SettlementBreakdown list" where
  "attributed members bill d c =
     itemsFor (if hasCoverage bill then coveragePushes members bill else inferPushes members bill) d c"

text \<open>
  The items from \<open>d\<close> to \<open>c\<close> of all the bills that the resolver counts, in bill
  order, when bill \<open>b\<close> adds \<open>g b d c\<close>.
\<close>

definition concatOver ::
  "(Bill \<Rightarrow> string \<Rightarrow> string \<Rightarrow> SettlementBreakdown list) \<Rightarrow> Bill list \<Rightarrow> string \<Rightarrow> string
   \<Rightarrow> SettlementBreakdown list" where
  "concatOver g bills d c = concat (map (\<lambda>b. g b d c) (filter paidBillFilter bills))"


text \<open>Neither total of the bill is exactly 0.01, the threshold of the skip test.\<close>

definition totalsClear :: "Person list \<Rightarrow> Bill \<Rightarrow> bool" where
  "totalsClear members bill =
     (sumValues (getBillContributions bill) \<noteq> 1 / 100
      \<and> sumValues (calculateBillShares bill members) \<noteq> 1 / 100)"

text \<open>
  The pairs for which the pair loop reaches its netting step: both guards passed, the
  order of ids and the set of processed keys.
\<close>

fun visitPairs :: "(Person \<times> Person) list \<Rightarrow> string set \<Rightarrow> (Person \<times> Person) list" where
  "visitPairs [] seen = []"
| "visitPairs (p # ps) seen =
     (if person_id (fst p) \<ge> person_id (snd p) \<or> pairKey (fst p) (snd p) \<in> seen
      then visitPairs ps seen
      else p # visitPairs ps (insert (pairKey (fst p) (snd p)) seen))"

definition visitedPairs :: "Person list \<Rightarrow> (Person \<times> Person) list" where
  "visitedPairs members = visitPairs (List.product members members) {}"

definition pairResult ::
  "billDebts \<Rightarrow> SettlementRecord list option \<Rightarrow> string obj \<Rightarrow> Person \<Rightarrow> Person
   \<Rightarrow> SettlementWithBreakdown option" where
  "pairResult bd recs mm a b = (case settlePair bd recs mm a b of Inl e \<Rightarrow> None | Inr r \<Rightarrow> r)"

text \<open>
  The resolver emits settlement \<open>s\<close> for the pair \<open>(a, b)\<close>: the bills are attributed
  without an exception, the pair loop reaches the pair, and its netting step pushes \<open>s\<close>.
\<close>

definition emitsFor ::
  "Bill list \<Rightarrow> Person list \<Rightarrow> SettlementRecord list option \<Rightarrow> Person \<Rightarrow> Person
   \<Rightarrow> SettlementWithBreakdown \<Rightarrow> bool" where
  "emitsFor bills members recs a b s =
     (case processBills bills members of
        Inl e \<Rightarrow> False
      | Inr bd \<Rightarrow> (a, b) \<in> set (visitedPairs members)
                 \<and> settlePair bd recs (memberMap members) a b = Inr (Some s))"


section \<open>Example data\<close>

definition member :: "string \<Rightarrow> string \<Rightarrow> Person" where
  "member i n = \<lparr>person_id = i, person_name = n, mortgageShare = 0\<rparr>"

definition evenBill :: "string \<Rightarrow> rat \<Rightarrow> Bill" where
  "evenBill i a =
     \<lparr>bill_id = i, bill_name = i, amount = a, dueDate = 19800, category = CatOther,
      splitType = Even, paidBy = None, paidContributions = None, creditEarned = None,
      coverageAllocations = None, isPaid = False, customSplits = None, items = None\<rparr>"

definition alice :: Person where "alice = member ''a'' ''Alice''"
definition bob :: Person where "bob = member ''b'' ''Bob''"

text \<open>\<open>HOUSEHOLD_MEMBERS\<close> of types.ts, and a paid mortgage bill of \<open>MORTGAGE_TOTAL\<close>.\<close>

definition household :: "Person list" where
  "household =
     [\<lparr>person_id = ''drew'', person_name = ''Drew'', mortgageShare = 1300\<rparr>,
      \<lparr>person_id = ''steve'', person_name = ''Steve'', mortgageShare = 700\<rparr>,
      \<lparr>person_id = ''mom'', person_name = ''Mom'', mortgageShare = 500\<rparr>,
      \<lparr>person_id = ''dad'', person_name = ''Dad'', mortgageShare = 500\<rparr>,
      \<lparr>person_id = ''rose'', person_name = ''Rose'', mortgageShare = 500\<rparr>]"

definition mortgageBill :: Bill where
  "mortgageBill = (evenBill ''mortgage'' 3564)
     \<lparr>category := CatMortgage, splitType := Mortgage, paidBy := Some ''drew'', isPaid := True\<rparr>"

definition sevenRoster :: "Person list" where
  "sevenRoster = [member ''m1'' ''M1'', member ''m2'' ''M2'', member ''m3'' ''M3'',
                  member ''m4'' ''M4'', member ''m5'' ''M5'', member ''m6'' ''M6'',
                  member ''m7'' ''M7'']"

definition sevenWayBill :: Bill where
  "sevenWayBill = (evenBill ''x'' 100)\<lparr>paidBy := Some ''m1'', isPaid := True\<rparr>"

definition twoBills :: "Bill list" where
  "twoBills = [(evenBill ''x'' 100)\<lparr>paidBy := Some ''a'', isPaid := True\<rparr>,
               (evenBill ''y'' 100)\<lparr>paidContributions := Some [(''a'', 40)]\<rparr>]"

text \<open>The scenarios of the specification and the inputs of the counterexamples.\<close>

definition paidByAlice :: Bill where
  "paidByAlice = (evenBill ''x'' 100)\<lparr>paidBy := Some ''a'', isPaid := True\<rparr>"


definition coverageScenario :: Bill where
  "coverageScenario = (evenBill ''x'' 60)
     \<lparr>paidContributions := Some [(''a'', 60)], isPaid := True,
      coverageAllocations := Some [\<lparr>payerId = ''a'', coveredId = ''b'', cov_amount = 30\<rparr>]\<rparr>"

definition ghostCoverage :: Bill where
  "ghostCoverage = (evenBill ''x'' 60)
     \<lparr>paidContributions := Some [(''a'', 60)], isPaid := True,
      coverageAllocations := Some [\<lparr>payerId = ''a'', coveredId = ''ghost'', cov_amount = 30\<rparr>]\<rparr>"

definition nettingScenario :: "Bill list" where
  "nettingScenario =
     [(evenBill ''x'' 100)\<lparr>paidBy := Some ''b'', isPaid := True\<rparr>,
      (evenBill ''y'' 20)\<lparr>paidContributions := Some [(''a'', 20)], isPaid := True,
        coverageAllocations := Some [\<lparr>payerId = ''a'', coveredId = ''b'', cov_amount = 20\<rparr>]\<rparr>]"

definition hyphenRoster :: "Person list" where
  "hyphenRoster = [member ''ann'' ''Ann'', member ''ann-marie'' ''Ann Marie'',
                   member ''marie-smith'' ''Marie Smith'', member ''smith'' ''Smith'']"

definition hyphenBill :: Bill where
  "hyphenBill = (evenBill ''x'' 50)
     \<lparr>paidContributions := Some [(''smith'', 50)], isPaid := True,
      coverageAllocations := Some [\<lparr>payerId = ''smith'', coveredId = ''ann-marie'', cov_amount = 50\<rparr>]\<rparr>"





text \<open>
  A third member; a bill with one allocation between roster members and one that covers
  an unknown id; a bill whose allocation has the payer cover herself; a bill that Bob
  paid with an allocation covering Alice.
\<close>

definition carol :: Person where "carol = member ''c'' ''Carol''"

definition mixedCoverage :: Bill where
  "mixedCoverage = (evenBill ''x'' 60)
     \<lparr>paidContributions := Some [(''a'', 60)], isPaid := True,
      coverageAllocations := Some [\<lparr>payerId = ''a'', coveredId = ''b'', cov_amount = 30\<rparr>,
                                   \<lparr>payerId = ''a'', coveredId = ''ghost'', cov_amount = 30\<rparr>]\<rparr>"

definition selfCoverage :: Bill where
  "selfCoverage = (evenBill ''x'' 60)
     \<lparr>paidContributions := Some [(''a'', 60)], isPaid := True,
      coverageAllocations := Some [\<lparr>payerId = ''a'', coveredId = ''a'', cov_amount = 30\<rparr>]\<rparr>"

definition coverageBack :: Bill where
  "coverageBack = (evenBill ''y'' 20)
     \<lparr>paidContributions := Some [(''b'', 20)], isPaid := True,
      coverageAllocations := Some [\<lparr>payerId = ''b'', coveredId = ''a'', cov_amount = 20\<rparr>]\<rparr>"

section \<open>Basic facts\<close>

lemma foldl_plus_start: "foldl (\<lambda>s x. s + f x) a xs = a + sum_list (map f xs)"
  for a :: rat
  by (induction xs arbitrary: a) (simp_all add: add.assoc)

lemma sumValues_sum_list: "sumValues ob = sum_list (map snd ob)"
  using foldl_plus_start [of "\<lambda>x. x" 0 "map snd ob"] by (simp add: sumValues_def)

section \<open>Contribution Extractor\<close>

text \<open>
  C6, as stated: a bill whose contributions map is present but empty, with \<open>paidBy\<close>
  set, falls through to the \<open>paidBy\<close> rule. The code returns the empty map there.
\<close>

theorem getBillContributions_empty_map_counterexample:
  "getBillContributions ((evenBill ''x'' 100)\<lparr>paidBy := Some ''a'', paidContributions := Some []\<rparr>) = []
   \<and> getBillContributions_spec ((evenBill ''x'' 100)\<lparr>paidBy := Some ''a'', paidContributions := Some []\<rparr>)
     = [(''a'', 100)]"
  by (simp add: getBillContributions_def getBillContributions_spec_def evenBill_def truthy_def)

text \<open>
  C6, amended: the Contribution Extractor returns \<open>paidContributions\<close> verbatim whenever
  it is present, empty or not; otherwise, when \<open>paidBy\<close> is a non-empty id, the
  single-entry map from \<open>paidBy\<close> to the bill amount; otherwise the empty map. It agrees
  with the specification's rule on every bill but those whose contributions map is
  present and empty, where it returns the empty map.
\<close>

theorem getBillContributions_presence:
  "(\<forall>pc. paidContributions bill = Some pc \<longrightarrow> getBillContributions bill = pc)
   \<and> (paidContributions bill = None \<and> truthy (paidBy bill)
        \<longrightarrow> getBillContributions bill = [(the (paidBy bill), amount bill)])
   \<and> (paidContributions bill = None \<and> \<not> truthy (paidBy bill) \<longrightarrow> getBillContributions bill = [])
   \<and> (paidContributions bill \<noteq> Some [] \<longrightarrow> getBillContributions bill = getBillContributions_spec bill)"
  by (cases "paidContributions bill")
     (auto simp: getBillContributions_def getBillContributions_spec_def)

theorem getBillContributions_presence_witness:
  "getBillContributions ((evenBill ''x'' 100)\<lparr>paidContributions := Some [(''a'', 40)]\<rparr>) = [(''a'', 40)]
   \<and> getBillContributions ((evenBill ''x'' 100)\<lparr>paidBy := Some ''b''\<rparr>) = [(''b'', 100)]
   \<and> getBillContributions (evenBill ''x'' 100) = []
   \<and> getBillContributions_spec ((evenBill ''x'' 100)\<lparr>paidBy := Some ''b''\<rparr>) = [(''b'', 100)]"
  using getBillContributions_presence [of "(evenBill ''x'' 100)\<lparr>paidContributions := Some [(''a'', 40)]\<rparr>"]
    getBillContributions_presence [of "(evenBill ''x'' 100)\<lparr>paidBy := Some ''b''\<rparr>"]
    getBillContributions_presence [of "evenBill ''x'' 100"]
  by (auto simp: evenBill_def truthy_def)

section \<open>Payment Status Evaluator\<close>

text \<open>
  C8, as stated, fails twice. A bill of 100 with 99.995 contributed is within the
  tolerance of fully paid, yet the code reports it partial. A bill due on day 19800 and
  read at noon UTC of that same day, in the UTC zone, is not due before today, yet the
  code reports it overdue.
\<close>

theorem getBillStatus_counterexample:
  "getBillStatus 0 ((evenBill ''x'' 100)\<lparr>dueDate := 5, paidContributions := Some [(''a'', 19999 / 200)]\<rparr>) = Partial
   \<and> getBillStatus_spec 0 0 ((evenBill ''x'' 100)\<lparr>dueDate := 5, paidContributions := Some [(''a'', 19999 / 200)]\<rparr>) = Pending
   \<and> getBillStatus (19800 * 86400000 + 43200000) (evenBill ''x'' 100) = Overdue
   \<and> getBillStatus_spec 0 (19800 * 86400000 + 43200000) (evenBill ''x'' 100) = Pending"
  by (simp add: getBillStatus_def getBillStatus_spec_def evenBill_def sumValues_def
      getBillContributions_def truthy_def localDay_def msPerDay_def)

text \<open>
  C8, amended: the status is \<open>paid\<close> exactly when \<open>isPaid\<close> is true. Otherwise it is
  \<open>partial\<close> whenever \<open>paidContributions\<close> is present and its total is strictly between
  0 and the bill amount, compared exactly, with no tolerance, and only if
  \<open>paidContributions\<close> is present and its total lies between 0 and the amount.
  Otherwise it is \<open>overdue\<close> when the due date is strictly before today's local calendar
  date, and \<open>pending\<close> when the due date is two or more days after today, or after
  today in a zone at or ahead of UTC; \<open>pending\<close> is reported only for a bill due today
  or later and \<open>overdue\<close> only for a bill due tomorrow or earlier. The zone is less than
  a day from UTC. Which of the two a bill due today reads, and one due tomorrow in a
  zone behind UTC, is left open.
\<close>

theorem getBillStatus_rules:
  assumes "- msPerDay < tz" and "tz < msPerDay"
  shows "(getBillStatus now bill = Paid \<longleftrightarrow> isPaid bill)
    \<and> (\<not> isPaid bill \<and> (\<exists>pc. paidContributions bill = Some pc
                              \<and> 0 < sumValues pc \<and> sumValues pc < amount bill)
         \<longrightarrow> getBillStatus now bill = Partial)
    \<and> (getBillStatus now bill = Partial
         \<longrightarrow> \<not> isPaid bill \<and> (\<exists>pc. paidContributions bill = Some pc
                              \<and> 0 \<le> sumValues pc \<and> sumValues pc \<le> amount bill))
    \<and> (getBillStatus now bill \<noteq> Paid \<and> getBillStatus now bill \<noteq> Partial
         \<and> dueDate bill < localDay tz now \<longrightarrow> getBillStatus now bill = Overdue)
    \<and> (getBillStatus now bill \<noteq> Paid \<and> getBillStatus now bill \<noteq> Partial
         \<and> localDay tz now + 2 \<le> dueDate bill \<longrightarrow> getBillStatus now bill = Pending)
    \<and> (getBillStatus now bill \<noteq> Paid \<and> getBillStatus now bill \<noteq> Partial
         \<and> 0 \<le> tz \<and> localDay tz now < dueDate bill \<longrightarrow> getBillStatus now bill = Pending)
    \<and> (getBillStatus now bill = Pending \<longrightarrow> localDay tz now \<le> dueDate bill)
    \<and> (getBillStatus now bill = Overdue \<longrightarrow> dueDate bill \<le> localDay tz now + 1)"
proof -
  have lo: "localDay tz now * msPerDay \<le> now + tz"
    by (simp add: localDay_def msPerDay_def)
  have hi: "now + tz < (localDay tz now + 1) * msPerDay"
  proof -
    have "(now + tz) mod msPerDay < msPerDay"
      by (simp add: msPerDay_def)
    moreover have "now + tz = localDay tz now * msPerDay + (now + tz) mod msPerDay"
      by (simp add: localDay_def)
    ultimately show ?thesis
      by (simp add: algebra_simps)
  qed
  have before: "dueDate bill * msPerDay < now" if "dueDate bill < localDay tz now"
  proof -
    have "(dueDate bill + 1) * msPerDay \<le> localDay tz now * msPerDay"
      using that by (simp add: msPerDay_def)
    then show ?thesis
      using lo assms(2) by (simp add: algebra_simps)
  qed
  have ahead2: "\<not> dueDate bill * msPerDay < now" if "localDay tz now + 2 \<le> dueDate bill"
  proof -
    have "(localDay tz now + 2) * msPerDay \<le> dueDate bill * msPerDay"
      using that by (simp add: msPerDay_def)
    then show ?thesis
      using hi assms(1) by (simp add: algebra_simps)
  qed
  have ahead1: "\<not> dueDate bill * msPerDay < now" if "0 \<le> tz" "localDay tz now < dueDate bill"
  proof -
    have "(localDay tz now + 1) * msPerDay \<le> dueDate bill * msPerDay"
      using that(2) by (simp add: msPerDay_def)
    then show ?thesis
      using hi that(1) by (simp add: algebra_simps)
  qed
  have pend: "localDay tz now \<le> dueDate bill" if "\<not> dueDate bill * msPerDay < now"
    using that before by fastforce
  have over: "dueDate bill \<le> localDay tz now + 1" if "dueDate bill * msPerDay < now"
    using that ahead2 by fastforce
  show ?thesis
    using before ahead2 ahead1 pend over
    by (cases "paidContributions bill") (auto simp: getBillStatus_def)
qed

theorem getBillStatus_rules_witness:
  "getBillStatus (19800 * 86400000) ((evenBill ''x'' 100)\<lparr>dueDate := 19799\<rparr>) = Overdue
   \<and> getBillStatus (19800 * 86400000) ((evenBill ''x'' 100)\<lparr>dueDate := 19802\<rparr>) = Pending
   \<and> getBillStatus (19800 * 86400000) ((evenBill ''x'' 100)\<lparr>isPaid := True\<rparr>) = Paid
   \<and> getBillStatus (19800 * 86400000) ((evenBill ''x'' 100)\<lparr>paidContributions := Some [(''a'', 40)]\<rparr>) = Partial"
proof -
  have z: "- msPerDay < 0" "(0::int) < msPerDay"
    by (simp_all add: msPerDay_def)
  have n1: "getBillStatus (19800 * 86400000) ((evenBill ''x'' 100)\<lparr>dueDate := 19799\<rparr>) \<noteq> Paid"
    "getBillStatus (19800 * 86400000) ((evenBill ''x'' 100)\<lparr>dueDate := 19799\<rparr>) \<noteq> Partial"
    "getBillStatus (19800 * 86400000) ((evenBill ''x'' 100)\<lparr>dueDate := 19802\<rparr>) \<noteq> Paid"
    "getBillStatus (19800 * 86400000) ((evenBill ''x'' 100)\<lparr>dueDate := 19802\<rparr>) \<noteq> Partial"
    by (simp_all add: getBillStatus_def evenBill_def)
  show ?thesis
    using getBillStatus_rules [OF z, of "19800 * 86400000" "(evenBill ''x'' 100)\<lparr>dueDate := 19799\<rparr>"]
      getBillStatus_rules [OF z, of "19800 * 86400000" "(evenBill ''x'' 100)\<lparr>dueDate := 19802\<rparr>"]
      getBillStatus_rules [OF z, of "19800 * 86400000" "(evenBill ''x'' 100)\<lparr>isPaid := True\<rparr>"]
      getBillStatus_rules [OF z, of "19800 * 86400000" "(evenBill ''x'' 100)\<lparr>paidContributions := Some [(''a'', 40)]\<rparr>"]
      n1
    by (simp add: evenBill_def msPerDay_def localDay_def sumValues_def)
qed

section \<open>Balance Aggregator\<close>

lemma map_of_addTo:
  "map_of (addTo k v bal) k' =
     (if k' = k then map_option (\<lambda>x. x + v) (map_of bal k) else map_of bal k')"
  by (cases "map_of bal k") (simp_all add: addTo_def update_conv')

lemma map_of_fold_addTo:
  assumes "distinct (map fst es)"
  shows "map_of (fold (\<lambda>(k, v) bal. if c k then addTo k (g k v) bal else bal) es bal) k0 =
     map_option (\<lambda>x. x + (case map_of es k0 of
                             Some v \<Rightarrow> if c k0 then g k0 v else 0
                           | None \<Rightarrow> 0)) (map_of bal k0)"
  using assms
proof (induction es arbitrary: bal)
  case Nil
  then show ?case by (simp add: option.map_ident)
next
  case (Cons e es)
  obtain k v where e: "e = (k, v)" by (cases e)
  have notin: "map_of es k = None"
    using Cons.prems e by (simp add: map_of_eq_None_iff)
  show ?case
  proof (cases "k0 = k")
    case True
    then show ?thesis
      using Cons e notin
      by (cases "map_of bal k") (simp_all add: map_of_addTo)
  next
    case False
    then show ?thesis
      using Cons e by (simp add: map_of_addTo)
  qed
qed

lemma wfObj_update: "wfObj ob \<Longrightarrow> wfObj (AList.update k v ob)"
  by (simp add: wfObj_def distinct_update)

lemma wfObj_fold_update:
  "wfObj ob \<Longrightarrow> wfObj (fold (\<lambda>x sh. AList.update (f x) (g x sh) sh) xs ob)"
  by (induction xs arbitrary: ob) (simp_all add: wfObj_update)

lemma wfObj_fold_update_const:
  "wfObj ob \<Longrightarrow> wfObj (fold (\<lambda>x. AList.update (f x) (h x)) xs ob)"
  by (induction xs arbitrary: ob) (simp_all add: wfObj_update)

lemma wfObj_addItem: "wfObj ob \<Longrightarrow> wfObj (addItem item ob)"
  unfolding addItem_def Let_def
  using wfObj_fold_update [of ob "\<lambda>pid. pid"] by simp

lemma wfObj_fold_addItem: "wfObj ob \<Longrightarrow> wfObj (fold addItem its ob)"
  by (induction its arbitrary: ob) (simp_all add: wfObj_addItem)

lemma wfObj_Nil: "wfObj []"
  by (simp add: wfObj_def)

lemma wfObj_shares:
  assumes "wfBill bill"
  shows "wfObj (calculateBillShares bill members)"
proof -
  have cs: "wfObj (the (customSplits bill))" if "customSplits bill \<noteq> None"
    using assms that by (auto simp: wfBill_def split: option.splits)
  show ?thesis
    unfolding calculateBillShares_def Let_def
    by (simp add: wfObj_fold_update_const wfObj_fold_addItem wfObj_Nil cs)
qed

lemma wfObj_contributions: "wfBill bill \<Longrightarrow> wfObj (getBillContributions bill)"
  by (auto simp: getBillContributions_def wfBill_def wfObj_def split: option.splits)

lemma map_of_balanceBill:
  assumes "wfBill bill"
  shows "map_of (balanceBill members bill bal) k =
     map_option (\<lambda>x. x + billDelta members bill k) (map_of bal k)"
proof -
  define shares where "shares = calculateBillShares bill members"
  define contr where "contr = getBillContributions bill"
  define r where "r = min (sumValues contr / sumValues shares) 1"
  define F1 where "F1 = (\<lambda>(k, v) b. if (\<lambda>_. True) k
      then addTo k ((\<lambda>k v. v * r - orZero (map_of contr k)) k v) b else b)"
  define F2 where "F2 = (\<lambda>(k, v) b. if (\<lambda>k. \<not> hasKey k shares) k
      then addTo k ((\<lambda>k (v::rat). - v) k v) b else b)"
  define skip where "skip \<longleftrightarrow> sumValues contr < 1 / 100 \<or> sumValues shares < 1 / 100"
  have d1: "distinct (map fst shares)" and d2: "distinct (map fst contr)"
    using wfObj_shares [OF assms] wfObj_contributions [OF assms]
    by (simp_all add: wfObj_def shares_def contr_def)
  have bb: "balanceBill members bill bal = (if skip then bal else fold F2 contr (fold F1 shares bal))"
    unfolding balanceBill_def Let_def F1_def F2_def skip_def shares_def contr_def r_def
    by (simp add: case_prod_unfold)
  have l1: "map_of (fold F1 shares bal) k =
      map_option (\<lambda>x. x + (case map_of shares k of
                              Some v \<Rightarrow> v * r - orZero (map_of contr k) | None \<Rightarrow> 0)) (map_of bal k)"
    unfolding F1_def using map_of_fold_addTo [OF d1, of "\<lambda>_. True"]
    by (simp cong: option.case_cong)
  have l2: "map_of (fold F2 contr b) k =
      map_option (\<lambda>x. x + (case map_of contr k of
                              Some v \<Rightarrow> if \<not> hasKey k shares then - v else 0 | None \<Rightarrow> 0)) (map_of b k)" for b
    unfolding F2_def using map_of_fold_addTo [OF d2, of "\<lambda>k. \<not> hasKey k shares"] by simp
  have bd: "billDelta members bill k =
      (if skip then 0
       else (case map_of shares k of
               Some share \<Rightarrow> share * r - orZero (map_of contr k)
             | None \<Rightarrow> (case map_of contr k of Some a \<Rightarrow> - a | None \<Rightarrow> 0)))"
    unfolding billDelta_def Let_def skip_def shares_def contr_def r_def by simp
  show ?thesis
  proof (cases skip)
    case True
    then show ?thesis by (simp add: bb bd option.map_ident)
  next
    case False
    then have "map_of (balanceBill members bill bal) k = map_of (fold F2 contr (fold F1 shares bal)) k"
      by (simp add: bb)
    then show ?thesis
      using False unfolding bd l2 l1
      by (cases "map_of bal k"; cases "map_of shares k"; cases "map_of contr k")
         (simp_all add: hasKey_def orZero_def)
  qed
qed

lemma map_of_fold_balanceBill:
  assumes "\<forall>b\<in>set bs. wfBill b"
  shows "map_of (fold (balanceBill members) bs bal) k =
     map_option (\<lambda>x. x + (\<Sum>b\<leftarrow>bs. billDelta members b k)) (map_of bal k)"
  using assms
proof (induction bs arbitrary: bal)
  case Nil
  then show ?case by (simp add: option.map_ident)
next
  case (Cons b bs)
  then show ?case
    by (cases "map_of bal k") (simp_all add: map_of_balanceBill add.assoc)
qed

lemma map_of_init_balances:
  "map_of (fold (\<lambda>member bal. AList.update (person_id member) 0 bal) members ob) k =
     (if k \<in> set (map person_id members) then Some (0::rat) else map_of ob k)"
  by (induction members arbitrary: ob) (auto simp: update_conv')

lemma rawBalances_lookup:
  assumes "\<forall>b\<in>set bills. wfBill b" and "m \<in> set members"
  shows "map_of (rawBalances bills members) (person_id m) =
     Some (\<Sum>b\<leftarrow>filter paidBillFilter bills. billDelta members b (person_id m))"
  using assms
  by (simp add: rawBalances_def map_of_fold_balanceBill map_of_init_balances)

lemma calculateBalances_eq:
  assumes "\<forall>b\<in>set bills. wfBill b"
  shows "calculateBalances bills members =
     map (\<lambda>m. \<lparr>personId = person_id m, personName = person_name m,
                owes = round2 (\<Sum>b\<leftarrow>filter paidBillFilter bills. billDelta members b (person_id m))\<rparr>)
       members"
  unfolding calculateBalances_def Let_def
  by (rule map_cong) (simp_all add: rawBalances_lookup [OF assms])

lemma sum_list_lookup_keys:
  assumes "distinct ks" and "distinct (map fst ob)" and "set (map fst ob) \<subseteq> set ks"
  shows "(\<Sum>k\<leftarrow>ks. orZero (map_of ob k)) = sumValues ob"
proof -
  let ?g = "\<lambda>k. orZero (map_of ob k)"
  have "(\<Sum>k\<leftarrow>ks. ?g k) = sum ?g (set ks)"
    by (rule sum_list_distinct_conv_sum_set [OF assms(1)])
  also have "\<dots> = sum ?g (set (map fst ob))"
  proof (rule sum.mono_neutral_right)
    show "finite (set ks)" by simp
    show "set (map fst ob) \<subseteq> set ks" by (rule assms(3))
    show "\<forall>i\<in>set ks - set (map fst ob). ?g i = 0"
      by (auto simp: orZero_def map_of_eq_None_iff [THEN iffD2] split: option.splits)
  qed
  also have "\<dots> = sum_list (map ?g (map fst ob))"
    by (rule sum_list_distinct_conv_sum_set [OF assms(2), symmetric])
  also have "\<dots> = sum_list (map snd ob)"
  proof -
    have "map ?g (map fst ob) = map snd ob"
      using assms(2) by (auto simp: orZero_def)
    then show ?thesis by (simp only:)
  qed
  finally show ?thesis by (simp add: sumValues_sum_list)
qed

lemma sum_list_scale_diff:
  "(\<Sum>k\<leftarrow>ks. r * f k - g k) = r * (\<Sum>k\<leftarrow>ks. f k) - (\<Sum>k\<leftarrow>ks. g k)"
  for r :: rat
  by (induction ks) (simp_all add: algebra_simps)

lemma billDelta_alt:
  "billDelta members bill k =
     (let totalPaid = sumValues (getBillContributions bill);
          totalShares = sumValues (calculateBillShares bill members)
      in if totalPaid < 1 / 100 \<or> totalShares < 1 / 100 then 0
         else min (totalPaid / totalShares) 1 * orZero (map_of (calculateBillShares bill members) k)
              - orZero (map_of (getBillContributions bill) k))"
  unfolding billDelta_def Let_def
  by (cases "map_of (calculateBillShares bill members) k";
      cases "map_of (getBillContributions bill) k") (simp_all add: orZero_def)

lemma billDelta_sum:
  assumes "wfBill bill" and "distinct (map person_id members)" and "rosterBill members bill"
  shows "(\<Sum>m\<leftarrow>members. billDelta members bill (person_id m)) = - overpayment members bill"
proof -
  let ?sh = "calculateBillShares bill members"
  let ?co = "getBillContributions bill"
  let ?ks = "map person_id members"
  have d1: "distinct (map fst ?sh)" and d2: "distinct (map fst ?co)"
    using wfObj_shares [OF assms(1)] wfObj_contributions [OF assms(1)] by (simp_all add: wfObj_def)
  have s1: "(\<Sum>k\<leftarrow>?ks. orZero (map_of ?sh k)) = sumValues ?sh"
    using assms(2,3) d1 by (intro sum_list_lookup_keys) (simp_all add: rosterBill_def)
  have s2: "(\<Sum>k\<leftarrow>?ks. orZero (map_of ?co k)) = sumValues ?co"
    using assms(2,3) d2 by (intro sum_list_lookup_keys) (simp_all add: rosterBill_def)
  show ?thesis
  proof (cases "sumValues ?co < 1 / 100 \<or> sumValues ?sh < 1 / 100")
    case True
    then show ?thesis by (simp add: billDelta_alt overpayment_def)
  next
    case False
    let ?r = "min (sumValues ?co / sumValues ?sh) 1"
    have "(\<Sum>m\<leftarrow>members. billDelta members bill (person_id m))
        = (\<Sum>k\<leftarrow>?ks. ?r * orZero (map_of ?sh k) - orZero (map_of ?co k))"
      using False by (simp add: billDelta_alt comp_def)
    also have "\<dots> = ?r * (\<Sum>k\<leftarrow>?ks. orZero (map_of ?sh k)) - (\<Sum>k\<leftarrow>?ks. orZero (map_of ?co k))"
      by (rule sum_list_scale_diff)
    also have "\<dots> = ?r * sumValues ?sh - sumValues ?co"
      by (simp only: s1 s2)
    also have "\<dots> = - max 0 (sumValues ?co - sumValues ?sh)"
    proof (cases "sumValues ?co \<le> sumValues ?sh")
      case True
      with False have "?r = sumValues ?co / sumValues ?sh"
        by (simp add: min_def)
      with False True show ?thesis by (simp add: max_def)
    next
      case F: False
      with False have "?r = 1"
        by (simp add: min_def)
      with F show ?thesis by (simp add: max_def)
    qed
    finally show ?thesis using False by (simp add: overpayment_def)
  qed
qed

lemma sum_list_billDelta_swap:
  assumes "\<forall>b\<in>set bs. wfBill b \<and> rosterBill members b" and "distinct (map person_id members)"
  shows "(\<Sum>m\<leftarrow>members. \<Sum>b\<leftarrow>bs. billDelta members b (person_id m))
     = - (\<Sum>b\<leftarrow>bs. overpayment members b)"
  using assms(1)
proof (induction bs)
  case Nil
  then show ?case by simp
next
  case (Cons b bs)
  have "(\<Sum>m\<leftarrow>members. \<Sum>b'\<leftarrow>b # bs. billDelta members b' (person_id m))
      = (\<Sum>m\<leftarrow>members. billDelta members b (person_id m))
        + (\<Sum>m\<leftarrow>members. \<Sum>b'\<leftarrow>bs. billDelta members b' (person_id m))"
    by (simp add: sum_list_addf)
  then show ?case
    using Cons billDelta_sum [of b members] assms(2) by simp
qed

lemma round2_close: "\<bar>round2 x - x\<bar> \<le> 1 / 200"
proof -
  define n where "n = \<lfloor>x * 100 + 1 / 2\<rfloor>"
  have r: "round2 x = of_int n / 100"
    by (simp add: round2_def n_def)
  have "of_int n \<le> x * 100 + 1 / 2" and "x * 100 + 1 / 2 < of_int n + 1"
    unfolding n_def by linarith+
  then have "of_int n / 100 - x \<le> 1 / 200" and "x - of_int n / 100 \<le> 1 / 200"
    by (simp_all add: field_simps)
  then show ?thesis
    unfolding r by linarith
qed

lemma sum_round2_close:
  "\<bar>(\<Sum>x\<leftarrow>xs. round2 (f x)) - (\<Sum>x\<leftarrow>xs. f x)\<bar> \<le> of_nat (length xs) / 200"
proof (induction xs)
  case Nil
  then show ?case by simp
next
  case (Cons a xs)
  have h: "\<bar>round2 (f a) - f a\<bar> \<le> 1 / 200" by (rule round2_close)
  have e: "of_nat (length (a # xs)) / 200 = of_nat (length xs) / 200 + (1 / 200 :: rat)"
    by (simp add: add_divide_distrib)
  show ?case
    unfolding e using Cons h by (simp only: list.map sum_list.Cons)
qed

text \<open>
  C4: calculateBalances considers exactly the bills that are marked paid with a payer
  (\<open>paidBy\<close> or \<open>paidContributions\<close>) or that have a strictly positive contribution.
  It returns one entry for each roster member, in roster order, and the total it
  reports for a member is a whole number of cents within half a cent of the sum, over
  the bills considered, of what each bill adds to the member's balance: nothing for a
  bill whose total paid or total shares is below 0.01, \<open>share * paidRatio - contribution\<close>
  with \<open>paidRatio = min (totalPaid / totalShares) 1\<close> for a share holder, and minus the
  full payment for a payer absent from the shares map. This is the total rounded to
  two decimals, whichever way a half cent is rounded. The dictionaries of the bills
  are well-formed objects, and no bill considered has a total of exactly 0.01, where
  the skip test is a tie.
\<close>

theorem calculateBalances_rounded_totals:
  assumes "\<forall>b\<in>set bills. wfBill b"
    and "\<forall>b\<in>set bills. paidBillFilter b \<longrightarrow> totalsClear members b"
  shows "length (calculateBalances bills members) = length members
   \<and> (\<forall>i<length members.
        personId (calculateBalances bills members ! i) = person_id (members ! i)
        \<and> personName (calculateBalances bills members ! i) = person_name (members ! i)
        \<and> (\<exists>n::int. owes (calculateBalances bills members ! i) = of_int n / 100)
        \<and> \<bar>owes (calculateBalances bills members ! i)
            - (\<Sum>b\<leftarrow>filter paidBillFilter bills. billDelta members b (person_id (members ! i)))\<bar>
           \<le> 1 / 200)
   \<and> (\<forall>b. paidBillFilter b \<longleftrightarrow>
          (isPaid b \<and> (truthy (paidBy b) \<or> paidContributions b \<noteq> None))
          \<or> (\<exists>pc. paidContributions b = Some pc \<and> (\<exists>e\<in>set pc. snd e > 0)))"
proof -
  have f: "paidBillFilter b \<longleftrightarrow>
          (isPaid b \<and> (truthy (paidBy b) \<or> paidContributions b \<noteq> None))
          \<or> (\<exists>pc. paidContributions b = Some pc \<and> (\<exists>e\<in>set pc. snd e > 0))" for b
    by (cases "paidContributions b") (auto simp: paidBillFilter_def list_ex_iff)
  have l: "length (calculateBalances bills members) = length members"
    by (simp add: calculateBalances_eq [OF assms(1)])
  have e: "personId (calculateBalances bills members ! i) = person_id (members ! i)
        \<and> personName (calculateBalances bills members ! i) = person_name (members ! i)
        \<and> (\<exists>n::int. owes (calculateBalances bills members ! i) = of_int n / 100)
        \<and> \<bar>owes (calculateBalances bills members ! i)
            - (\<Sum>b\<leftarrow>filter paidBillFilter bills. billDelta members b (person_id (members ! i)))\<bar>
           \<le> 1 / 200" if "i < length members" for i
  proof -
    let ?S = "\<Sum>b\<leftarrow>filter paidBillFilter bills. billDelta members b (person_id (members ! i))"
    have o: "owes (calculateBalances bills members ! i) = round2 ?S"
      and p: "personId (calculateBalances bills members ! i) = person_id (members ! i)"
      and q: "personName (calculateBalances bills members ! i) = person_name (members ! i)"
      using that by (simp_all add: calculateBalances_eq [OF assms(1)])
    have "\<exists>n::int. round2 ?S = of_int n / 100"
      unfolding round2_def by blast
    then show ?thesis
      using o p q round2_close [of ?S] by simp
  qed
  show ?thesis
    using l e f by blast
qed

theorem calculateBalances_rounded_totals_witness:
  "calculateBalances [paidByAlice] [alice, bob, carol] =
     [\<lparr>personId = ''a'', personName = ''Alice'', owes = - (6667 / 100)\<rparr>,
      \<lparr>personId = ''b'', personName = ''Bob'', owes = 3333 / 100\<rparr>,
      \<lparr>personId = ''c'', personName = ''Carol'', owes = 3333 / 100\<rparr>]
   \<and> (\<exists>n::int. owes (calculateBalances [paidByAlice] [alice, bob, carol] ! 1) = of_int n / 100)
   \<and> \<bar>owes (calculateBalances [paidByAlice] [alice, bob, carol] ! 1)
        - (\<Sum>b\<leftarrow>filter paidBillFilter [paidByAlice]. billDelta [alice, bob, carol] b ''b'')\<bar> \<le> 1 / 200
   \<and> (\<Sum>b\<leftarrow>filter paidBillFilter [paidByAlice]. billDelta [alice, bob, carol] b ''b'') = 100 / 3"
proof -
  have h: "\<forall>b\<in>set [paidByAlice]. wfBill b"
    by (simp add: paidByAlice_def wfBill_def wfObj_def evenBill_def)
  have c: "totalsClear [alice, bob, carol] paidByAlice"
    by code_simp
  have v: "calculateBalances [paidByAlice] [alice, bob, carol] =
     [\<lparr>personId = ''a'', personName = ''Alice'', owes = - (6667 / 100)\<rparr>,
      \<lparr>personId = ''b'', personName = ''Bob'', owes = 3333 / 100\<rparr>,
      \<lparr>personId = ''c'', personName = ''Carol'', owes = 3333 / 100\<rparr>]"
    by code_simp
  have s: "(\<Sum>b\<leftarrow>filter paidBillFilter [paidByAlice]. billDelta [alice, bob, carol] b ''b'') = 100 / 3"
    by code_simp
  have m: "person_id ([alice, bob, carol] ! 1) = ''b''"
    by (simp add: bob_def member_def)
  show ?thesis
    using calculateBalances_rounded_totals [of "[paidByAlice]" "[alice, bob, carol]"] h c v s m
    by auto
qed

text \<open>
  C7, as stated: the balances of fully paid bills whose contributors are all on the
  roster sum to zero within 0.01. The default household pays a mortgage bill of 3564
  in full while the mortgage shares add up to 3500: the balances sum to -64. And a
  bill of 100 split evenly over seven members and paid in full by one of them gives
  rounded balances that sum to 0.03.
\<close>

theorem calculateBalances_conservation_counterexample:
  "isPaid mortgageBill
   \<and> sumValues (getBillContributions mortgageBill) = amount mortgageBill
   \<and> rosterBill household mortgageBill
   \<and> sum_list (map owes (calculateBalances [mortgageBill] household)) = - 64
   \<and> isPaid sevenWayBill
   \<and> sumValues (getBillContributions sevenWayBill) = amount sevenWayBill
   \<and> rosterBill sevenRoster sevenWayBill
   \<and> sum_list (map owes (calculateBalances [sevenWayBill] sevenRoster)) = 3 / 100"
  by code_simp

text \<open>
  C7, amended: for a roster with distinct ids and bills whose share holders and
  contributors are all on the roster, the balances before rounding sum to minus the
  total overpayment, the amount by which the contributions of the bills counted exceed
  their total shares; the reported balances, each rounded to two decimals, sum to that
  within 0.005 per member. When no counted bill is paid beyond its total shares, the
  overpayment is zero and the balances sum to zero (within 0.005 per member after
  rounding).
\<close>

theorem calculateBalances_conservation:
  assumes "distinct (map person_id members)"
    and "\<forall>b\<in>set bills. wfBill b"
    and "\<forall>b\<in>set bills. paidBillFilter b \<longrightarrow> rosterBill members b"
  shows "(\<Sum>m\<leftarrow>members. the (map_of (rawBalances bills members) (person_id m)))
       = - (\<Sum>b\<leftarrow>filter paidBillFilter bills. overpayment members b)
     \<and> \<bar>(\<Sum>e\<leftarrow>calculateBalances bills members. owes e)
         + (\<Sum>b\<leftarrow>filter paidBillFilter bills. overpayment members b)\<bar>
       \<le> of_nat (length members) / 200
     \<and> ((\<forall>b\<in>set bills. paidBillFilter b \<longrightarrow>
            sumValues (getBillContributions b) \<le> sumValues (calculateBillShares b members))
         \<longrightarrow> (\<Sum>b\<leftarrow>filter paidBillFilter bills. overpayment members b) = 0)"
proof -
  let ?bs = "filter paidBillFilter bills"
  let ?d = "\<lambda>m. \<Sum>b\<leftarrow>?bs. billDelta members b (person_id m)"
  have raw: "map (\<lambda>m. the (map_of (rawBalances bills members) (person_id m))) members = map ?d members"
    by (rule map_cong) (simp_all add: rawBalances_lookup [OF assms(2)])
  have swap: "(\<Sum>m\<leftarrow>members. ?d m) = - (\<Sum>b\<leftarrow>?bs. overpayment members b)"
    using assms by (intro sum_list_billDelta_swap) auto
  have c1: "(\<Sum>m\<leftarrow>members. the (map_of (rawBalances bills members) (person_id m)))
       = - (\<Sum>b\<leftarrow>?bs. overpayment members b)"
    by (simp only: raw swap)
  have "(\<Sum>e\<leftarrow>calculateBalances bills members. owes e) = (\<Sum>m\<leftarrow>members. round2 (?d m))"
    by (simp add: calculateBalances_eq [OF assms(2)] comp_def)
  then have c2: "\<bar>(\<Sum>e\<leftarrow>calculateBalances bills members. owes e)
         + (\<Sum>b\<leftarrow>?bs. overpayment members b)\<bar> \<le> of_nat (length members) / 200"
    using sum_round2_close [of ?d members] swap by simp
  have c3: "(\<Sum>b\<leftarrow>?bs. overpayment members b) = 0"
    if "\<forall>b\<in>set bills. paidBillFilter b \<longrightarrow>
            sumValues (getBillContributions b) \<le> sumValues (calculateBillShares b members)"
  proof -
    have "map (overpayment members) ?bs = map (\<lambda>_. 0) ?bs"
      using that by (intro map_cong) (auto simp: overpayment_def Let_def max_def)
    then show ?thesis
      by (simp only: sum_list_0)
  qed
  show ?thesis
    using c1 c2 c3 by blast
qed

theorem calculateBalances_conservation_witness:
  "(\<Sum>m\<leftarrow>[alice, bob]. the (map_of (rawBalances twoBills [alice, bob]) (person_id m))) = 0
   \<and> \<bar>\<Sum>e\<leftarrow>calculateBalances twoBills [alice, bob]. owes e\<bar> \<le> 2 / 200"
proof -
  have h1: "distinct (map person_id [alice, bob])"
    by (simp add: alice_def bob_def member_def)
  have h2: "\<forall>b\<in>set twoBills. wfBill b"
    by (simp add: twoBills_def wfBill_def wfObj_def evenBill_def)
  have h3: "\<forall>b\<in>set twoBills. paidBillFilter b \<longrightarrow> rosterBill [alice, bob] b"
    by (simp add: twoBills_def) (code_simp)
  have h4: "\<forall>b\<in>set twoBills. paidBillFilter b \<longrightarrow>
            sumValues (getBillContributions b) \<le> sumValues (calculateBillShares b [alice, bob])"
    by (simp add: twoBills_def) (code_simp)
  note c = calculateBalances_conservation [OF h1 h2 h3]
  from c h4 have z: "(\<Sum>b\<leftarrow>filter paidBillFilter twoBills. overpayment [alice, bob] b) = 0"
    by blast
  from c have "(\<Sum>m\<leftarrow>[alice, bob]. the (map_of (rawBalances twoBills [alice, bob]) (person_id m))) = 0"
    unfolding z by simp
  moreover from c have "\<bar>\<Sum>e\<leftarrow>calculateBalances twoBills [alice, bob]. owes e\<bar> \<le> 2 / 200"
    unfolding z by simp
  ultimately show ?thesis by blast
qed

section \<open>Settlement Resolver\<close>

subsection \<open>Loops and pushes\<close>

lemma forEachE_append:
  "forEachE f (xs @ ys) s = (case forEachE f xs s of Inl e \<Rightarrow> Inl e | Inr s' \<Rightarrow> forEachE f ys s')"
  by (induction xs arbitrary: s) (auto split: sum.splits)

lemma forEachE_map: "forEachE f (map h xs) s = forEachE (\<lambda>x. f (h x)) xs s"
  by (induction xs arbitrary: s) (auto split: sum.splits)

lemma forEachE_product:
  "forEachE (\<lambda>a. forEachE (f a) ys) xs s = forEachE (\<lambda>p. f (fst p) (snd p)) (List.product xs ys) s"
  by (induction xs arbitrary: s) (auto simp: forEachE_append forEachE_map split: sum.splits)

lemma forEachE_cong:
  "(\<And>x s. x \<in> set xs \<Longrightarrow> f x s = g x s) \<Longrightarrow> forEachE f xs s = forEachE g xs s"
  by (induction xs arbitrary: s) (auto split: sum.splits)

lemma forEachE_invariant:
  assumes "\<And>x s s'. I s \<Longrightarrow> f x s = Inr s' \<Longrightarrow> I s'" and "I s" and "forEachE f xs s = Inr s'"
  shows "I s'"
  using assms(2,3)
proof (induction xs arbitrary: s)
  case Nil
  then show ?case by simp
next
  case (Cons x xs)
  then show ?case
    using assms(1) by (auto split: sum.splits)
qed

lemma pushAll_append:
  "pushAll (ps @ qs) bd = (case pushAll ps bd of Inl e \<Rightarrow> Inl e | Inr bd' \<Rightarrow> pushAll qs bd')"
  by (induction ps arbitrary: bd) (auto split: sum.splits)

lemma forEachE_pushes:
  "forEachE (\<lambda>x bd. if P x then pushDebt (d x) (c x) (it x) bd else Inr bd) xs bd
     = pushAll (map (\<lambda>x. (d x, c x, it x)) (filter P xs)) bd"
  by (induction xs arbitrary: bd) (auto split: sum.splits)

lemma pushDebt_lookup:
  "pushDebt d c item bd =
     (case lookupDebts bd d c of
        None \<Rightarrow> Inl TypeError
      | Some xs \<Rightarrow> Inr (bd(d \<mapsto> (the (bd d))(c \<mapsto> xs @ [item]))))"
  by (auto simp: pushDebt_def lookupDebts_def split: option.splits)

lemma lookupDebts_pushDebt:
  assumes "pushDebt d c item bd = Inr bd'"
  shows "lookupDebts bd' d' c' =
     (if d' = d \<and> c' = c then map_option (\<lambda>xs. xs @ [item]) (lookupDebts bd d c)
      else lookupDebts bd d' c')"
proof -
  from assms obtain inner xs where
    "bd d = Some inner" and "inner c = Some xs" and "bd' = bd(d \<mapsto> inner(c \<mapsto> xs @ [item]))"
    by (auto simp: pushDebt_def split: option.splits)
  then show ?thesis
    by (cases "d' = d"; cases "c' = c") (simp_all add: lookupDebts_def)
qed

lemma pushAll_lookup:
  assumes "\<forall>p\<in>set ps. lookupDebts bd (fst p) (fst (snd p)) \<noteq> None"
  shows "\<exists>bd'. pushAll ps bd = Inr bd'
     \<and> (\<forall>d c. lookupDebts bd' d c = map_option (\<lambda>xs. xs @ itemsFor ps d c) (lookupDebts bd d c))"
  using assms
proof (induction ps arbitrary: bd)
  case Nil
  then show ?case by (simp add: itemsFor_def option.map_ident)
next
  case (Cons p ps)
  obtain d c item where p: "p = (d, c, item)" by (cases p)
  from Cons.prems p obtain xs where xs: "lookupDebts bd d c = Some xs" by auto
  then obtain bd1 where bd1: "pushDebt d c item bd = Inr bd1"
    by (simp add: pushDebt_lookup)
  have l1: "lookupDebts bd1 d' c' =
     (if d' = d \<and> c' = c then Some (xs @ [item]) else lookupDebts bd d' c')" for d' c'
    using lookupDebts_pushDebt [OF bd1, of d' c'] xs by simp
  have "\<forall>q\<in>set ps. lookupDebts bd1 (fst q) (fst (snd q)) \<noteq> None"
    using Cons.prems by (simp add: l1)
  from Cons.IH [OF this] obtain bd' where
    r: "pushAll ps bd1 = Inr bd'"
    and l: "\<forall>d c. lookupDebts bd' d c = map_option (\<lambda>xs. xs @ itemsFor ps d c) (lookupDebts bd1 d c)"
    by blast
  have "pushAll (p # ps) bd = Inr bd'"
    using p bd1 r by simp
  moreover have "lookupDebts bd' d' c' = map_option (\<lambda>xs. xs @ itemsFor (p # ps) d' c') (lookupDebts bd d' c')" for d' c'
    using l xs by (cases "lookupDebts bd d' c'") (auto simp: l1 p itemsFor_def)
  ultimately show ?case by blast
qed

lemma pushAll_fails:
  assumes "\<exists>p\<in>set ps. lookupDebts bd (fst p) (fst (snd p)) = None"
  shows "pushAll ps bd = Inl TypeError"
  using assms
proof (induction ps arbitrary: bd)
  case Nil
  then show ?case by simp
next
  case (Cons p ps)
  obtain d c item where p: "p = (d, c, item)" by (cases p)
  show ?case
  proof (cases "lookupDebts bd d c")
    case None
    then show ?thesis by (simp add: p pushDebt_lookup)
  next
    case (Some xs)
    then obtain bd1 where bd1: "pushDebt d c item bd = Inr bd1"
      by (simp add: pushDebt_lookup)
    have l1: "lookupDebts bd1 d' c' = None \<longleftrightarrow> lookupDebts bd d' c' = None" for d' c'
      using lookupDebts_pushDebt [OF bd1, of d' c'] Some by simp
    from Cons.prems Some p have "\<exists>q\<in>set ps. lookupDebts bd1 (fst q) (fst (snd q)) = None"
      by (auto simp: l1)
    from Cons.IH [OF this] show ?thesis
      using p bd1 by simp
  qed
qed

lemma debtsShape_pushAll:
  assumes "debtsShape members bd" and "pushAll ps bd = Inr bd'"
  shows "debtsShape members bd'"
proof -
  have ok: "\<forall>p\<in>set ps. lookupDebts bd (fst p) (fst (snd p)) \<noteq> None"
    using pushAll_fails [of ps bd] assms(2) by fastforce
  from pushAll_lookup [OF ok] assms(2)
  have "\<forall>d c. lookupDebts bd' d c = map_option (\<lambda>xs. xs @ itemsFor ps d c) (lookupDebts bd d c)"
    by simp
  then show ?thesis
    using assms(1) by (simp add: debtsShape_def)
qed

lemma init_inner:
  "fold (\<lambda>creditor inner. if d \<noteq> person_id creditor then inner(person_id creditor \<mapsto> []) else inner) ms m0 c
     = (if c \<in> roster ms \<and> c \<noteq> d then Some [] else m0 c)"
  by (induction ms arbitrary: m0) (auto simp: roster_def)

lemma init_outer:
  "fold (\<lambda>debtor bd. bd(person_id debtor \<mapsto> G (person_id debtor))) ms bd0 d
     = (if d \<in> roster ms then Some (G d) else bd0 d)"
  by (induction ms arbitrary: bd0) (auto simp: roster_def)

lemma lookupDebts_init:
  "lookupDebts (initBillDebts members) d c =
     (if d \<in> roster members \<and> c \<in> roster members \<and> d \<noteq> c then Some [] else None)"
proof -
  define G :: "string \<Rightarrow> string \<rightharpoonup> SettlementBreakdown list"
    where "G = (\<lambda>d. fold (\<lambda>creditor inner. if d \<noteq> person_id creditor
                                    then inner(person_id creditor \<mapsto> []) else inner)
                  members Map.empty)"
  have "initBillDebts members = fold (\<lambda>debtor bd. bd(person_id debtor \<mapsto> G (person_id debtor))) members Map.empty"
    by (simp add: initBillDebts_def G_def)
  then have "initBillDebts members d = (if d \<in> roster members then Some (G d) else None)"
    by (simp only: init_outer)
  moreover have "G d c = (if c \<in> roster members \<and> c \<noteq> d then Some [] else None)"
    unfolding G_def by (simp only: init_inner)
  ultimately show ?thesis
    by (auto simp: lookupDebts_def)
qed

lemma debtsShape_init: "debtsShape members (initBillDebts members)"
  by (simp add: debtsShape_def lookupDebts_init)

subsection \<open>Coverage allocations\<close>

lemma processBill_coverage:
  assumes "coverageAllocations bill = Some cov" and "cov \<noteq> []"
  shows "processBill members bill bd = pushAll (coveragePushes members bill) bd"
proof -
  have "forEachE (coverageStep bill (calculateBillShares bill members)) cov bd
      = pushAll (coveragePushes members bill) bd"
    unfolding coverageStep_def coveragePushes_def breakdownItem_def
    using assms(1) by (simp add: forEachE_pushes)
  then show ?thesis
    using assms by (simp add: processBill_def)
qed

lemma itemsFor_coveragePushes:
  assumes "coverageAllocations bill = Some cov"
  shows "itemsFor (coveragePushes members bill) d c =
     map (\<lambda>a. \<lparr>billId = bill_id bill, billName = bill_name bill, bd_category = category bill,
                bd_dueDate = dueDate bill, totalAmount = amount bill,
                theirShare = orZero (map_of (calculateBillShares bill members) (coveredId a)),
                creditorPaid = cov_amount a\<rparr>)
       (filter (\<lambda>a. cov_amount a > 1 / 100 \<and> coveredId a = d \<and> payerId a = c) cov)"
  unfolding itemsFor_def coveragePushes_def assms option.sel
  by (induction cov) simp_all

text \<open>
  C9: the resolver is claimed to complete on every snapshot, counting a reference to an
  unknown id as zero. For a coverage allocation whose \<open>coveredId\<close> is not a roster id,
  \<open>billDebts[coverage.coveredId]\<close> is undefined and the push throws a TypeError.
\<close>

theorem resolver_throws_on_unknown_covered_id:
  "calculateSettlementsWithBreakdown [ghostCoverage] [alice, bob] None = Inl TypeError"
  by code_simp

subsection \<open>Proportional inference\<close>

lemma map_of_fold_update_key:
  "map_of (fold (\<lambda>m nets. AList.update (person_id m) (g (person_id m)) nets) ms ob) k =
     (if k \<in> roster ms then Some (g k) else map_of ob k)"
  by (induction ms arbitrary: ob) (auto simp: roster_def update_conv')

lemma netOf_netPositions:
  assumes "m \<in> set members"
  shows "netOf (netPositions bill members (calculateBillShares bill members) (getBillContributions bill)) m
     = netPosition members bill (person_id m)"
proof -
  have "netPositions bill members (calculateBillShares bill members) (getBillContributions bill)
      = fold (\<lambda>m nets. AList.update (person_id m) (netPosition members bill (person_id m)) nets) members []"
    by (simp add: netPositions_def netPosition_def Let_def)
  then show ?thesis
    using assms by (simp add: netOf_def map_of_fold_update_key roster_def)
qed


lemma itemsFor_Nil: "itemsFor [] d c = []"
  by (simp add: itemsFor_def)


lemma processBill_inference:
  assumes "coverageAllocations bill = None \<or> coverageAllocations bill = Some []"
  shows "processBill members bill bd = pushAll (inferPushes members bill) bd"
proof -
  define shares where "shares = calculateBillShares bill members"
  define contr where "contr = getBillContributions bill"
  define nets where "nets = netPositions bill members shares contr"
  define owed where "owed = foldl (\<lambda>sum c. sum + \<bar>netOf nets c\<bar>) 0 (billCreditors members bill)"
  have n: "netOf nets m = netPosition members bill (person_id m)" if "m \<in> set members" for m
    unfolding nets_def shares_def contr_def using that by (rule netOf_netPositions)
  have deb: "filter (\<lambda>m. netOf nets m > 1 / 100) members = billDebtors members bill"
    unfolding billDebtors_def by (rule filter_cong) (simp_all add: n)
  have cre: "filter (\<lambda>m. netOf nets m < - (1 / 100)) members = billCreditors members bill"
    unfolding billCreditors_def by (rule filter_cong) (simp_all add: n)
  have "map (\<lambda>c. \<bar>netOf nets c\<bar>) (billCreditors members bill)
      = map (\<lambda>c. \<bar>netPosition members bill (person_id c)\<bar>) (billCreditors members bill)"
    by (rule map_cong) (simp_all add: n billCreditors_def)
  then have "0 + sum_list (map (\<lambda>c. \<bar>netOf nets c\<bar>) (billCreditors members bill))
      = totalOverpaid members bill"
    unfolding totalOverpaid_def by (simp only: add_0_left)
  moreover have "owed = 0 + sum_list (map (\<lambda>c. \<bar>netOf nets c\<bar>) (billCreditors members bill))"
    unfolding owed_def by (rule foldl_plus_start)
  ultimately have ow: "owed = totalOverpaid members bill"
    by (simp only:)
  have loop: "forEachE (\<lambda>debtor. forEachE (inferStep bill shares nets owed debtor) (billCreditors members bill))
          (billDebtors members bill) bd
      = pushAll (map (\<lambda>p. (person_id (fst p), person_id (snd p), inferredItem members bill p))
          (filter (\<lambda>p. inferredAmount members bill (fst p) (snd p) > 1 / 100)
             (List.product (billDebtors members bill) (billCreditors members bill)))) bd"
  proof -
    have "forEachE (\<lambda>debtor. forEachE (inferStep bill shares nets owed debtor) (billCreditors members bill))
          (billDebtors members bill) bd
        = forEachE (\<lambda>p. inferStep bill shares nets owed (fst p) (snd p))
            (List.product (billDebtors members bill) (billCreditors members bill)) bd"
      by (rule forEachE_product)
    also have "\<dots> = forEachE (\<lambda>p bd. if inferredAmount members bill (fst p) (snd p) > 1 / 100
                                   then pushDebt (person_id (fst p)) (person_id (snd p)) (inferredItem members bill p) bd
                                   else Inr bd)
            (List.product (billDebtors members bill) (billCreditors members bill)) bd"
    proof (rule forEachE_cong)
      fix p s
      assume "p \<in> set (List.product (billDebtors members bill) (billCreditors members bill))"
      then have "fst p \<in> set members" and "snd p \<in> set members"
        by (auto simp: billDebtors_def billCreditors_def)
      then show "inferStep bill shares nets owed (fst p) (snd p) s =
         (if inferredAmount members bill (fst p) (snd p) > 1 / 100
          then pushDebt (person_id (fst p)) (person_id (snd p)) (inferredItem members bill p) s
          else Inr s)"
        by (simp add: inferStep_def Let_def n ow inferredAmount_def inferredItem_def breakdownItem_def shares_def)
    qed
    also have "\<dots> = pushAll (map (\<lambda>p. (person_id (fst p), person_id (snd p), inferredItem members bill p))
          (filter (\<lambda>p. inferredAmount members bill (fst p) (snd p) > 1 / 100)
             (List.product (billDebtors members bill) (billCreditors members bill)))) bd"
      by (rule forEachE_pushes)
    finally show ?thesis .
  qed
  have pb: "processBill members bill bd =
     (if sumValues contr < 1 / 100 \<or> sumValues shares < 1 / 100 then Inr bd
      else if \<not> (sumValues contr \<ge> sumValues shares * (99 / 100)) then Inr bd
      else if owed < 1 / 100 then Inr bd
      else forEachE (\<lambda>debtor. forEachE (inferStep bill shares nets owed debtor) (billCreditors members bill))
          (billDebtors members bill) bd)"
    using assms
    unfolding processBill_def Let_def shares_def [symmetric] contr_def [symmetric] nets_def [symmetric]
    unfolding deb cre
    unfolding owed_def [symmetric]
    by auto
  show ?thesis
    unfolding pb loop
    unfolding inferPushes_def inferenceApplies_def Let_def
      shares_def [symmetric] contr_def [symmetric] ow
    by auto
qed

subsection \<open>The pair loop\<close>

lemma visitPairs_subset:
  "p \<in> set (visitPairs ps seen) \<Longrightarrow> p \<in> set ps \<and> person_id (fst p) < person_id (snd p)"
  by (induction ps arbitrary: seen) (auto split: if_splits)

lemma visitedPairs_members:
  assumes "(a, b) \<in> set (visitedPairs members)"
  shows "a \<in> set members" and "b \<in> set members" and "person_id a < person_id b"
  using visitPairs_subset [of "(a, b)" "List.product members members" "{}"] assms
  by (auto simp: visitedPairs_def)

lemma settlePair_ok:
  assumes "debtsShape members bd" and "a \<in> set members" and "b \<in> set members"
    and "person_id a \<noteq> person_id b"
  shows "\<exists>r. settlePair bd recs mm a b = Inr r"
proof -
  from assms obtain xs ys where
    "lookupDebts bd (person_id a) (person_id b) = Some xs"
    "lookupDebts bd (person_id b) (person_id a) = Some ys"
    unfolding debtsShape_def roster_def
    by (metis imageI not_None_eq set_map)
  then show ?thesis
    by (simp add: settlePair_def Let_def)
qed

lemma pair_loop:
  assumes "\<forall>p\<in>set ps. person_id (fst p) < person_id (snd p) \<longrightarrow>
             (\<exists>r. settlePair bd recs mm (fst p) (snd p) = Inr r)"
  shows "\<exists>seen'. forEachE (\<lambda>p. pairStep bd recs mm (fst p) (snd p)) ps (acc, seen)
     = Inr (acc @ List.map_filter (\<lambda>p. pairResult bd recs mm (fst p) (snd p)) (visitPairs ps seen), seen')"
  using assms
proof (induction ps arbitrary: acc seen)
  case Nil
  then show ?case by (simp add: map_filter_simps)
next
  case (Cons p ps)
  have IH: "\<exists>seen'. forEachE (\<lambda>p. pairStep bd recs mm (fst p) (snd p)) ps (acc', seen0)
     = Inr (acc' @ List.map_filter (\<lambda>p. pairResult bd recs mm (fst p) (snd p)) (visitPairs ps seen0), seen')"
    for acc' seen0
    using Cons.IH [of acc' seen0] Cons.prems by simp
  show ?case
  proof (cases "person_id (fst p) \<ge> person_id (snd p) \<or> pairKey (fst p) (snd p) \<in> seen")
    case True
    then have "pairStep bd recs mm (fst p) (snd p) (acc, seen) = Inr (acc, seen)"
      by (auto simp: pairStep_def)
    then show ?thesis
      using True IH [of acc seen] by simp
  next
    case False
    then have lt: "person_id (fst p) < person_id (snd p)" by auto
    with Cons.prems obtain r where r: "settlePair bd recs mm (fst p) (snd p) = Inr r"
      by auto
    let ?seen = "insert (pairKey (fst p) (snd p)) seen"
    show ?thesis
    proof (cases r)
      case None
      then have "pairStep bd recs mm (fst p) (snd p) (acc, seen) = Inr (acc, ?seen)"
        using False r by (auto simp: pairStep_def)
      then show ?thesis
        using False IH [of acc ?seen] r None
        by (simp add: map_filter_simps pairResult_def)
    next
      case (Some s)
      then have "pairStep bd recs mm (fst p) (snd p) (acc, seen) = Inr (acc @ [s], ?seen)"
        using False r by (auto simp: pairStep_def)
      then show ?thesis
        using False IH [of "acc @ [s]" ?seen] r Some
        by (simp add: map_filter_simps pairResult_def)
    qed
  qed
qed

lemma debtsShape_processBill:
  assumes "debtsShape members bd" and "processBill members bill bd = Inr bd'"
  shows "debtsShape members bd'"
proof (cases "coverageAllocations bill = None \<or> coverageAllocations bill = Some []")
  case True
  then show ?thesis
    using assms debtsShape_pushAll processBill_inference by metis
next
  case False
  then obtain cov where "coverageAllocations bill = Some cov" and "cov \<noteq> []"
    by auto
  then show ?thesis
    using assms debtsShape_pushAll processBill_coverage by metis
qed

lemma debtsShape_processBills:
  assumes "processBills bills members = Inr bd"
  shows "debtsShape members bd"
  using forEachE_invariant [of "debtsShape members" "processBill members", OF _ debtsShape_init]
    debtsShape_processBill assms
  unfolding processBills_def by blast

lemma settleAll_result:
  assumes "debtsShape members bd"
  shows "\<exists>seen'. settleAll bd recs members
     = Inr (List.map_filter (\<lambda>p. pairResult bd recs (memberMap members) (fst p) (snd p))
              (visitedPairs members), seen')"
proof -
  have ok: "\<forall>p\<in>set (List.product members members). person_id (fst p) < person_id (snd p) \<longrightarrow>
             (\<exists>r. settlePair bd recs (memberMap members) (fst p) (snd p) = Inr r)"
    using settlePair_ok [OF assms] by auto
  have "settleAll bd recs members
      = forEachE (\<lambda>p. pairStep bd recs (memberMap members) (fst p) (snd p))
          (List.product members members) ([], {})"
    unfolding settleAll_def by (rule forEachE_product)
  then show ?thesis
    using pair_loop [OF ok, of "[]" "{}"] by (simp add: visitedPairs_def)
qed

lemma resolver_output:
  assumes "processBills bills members = Inr bd"
  shows "calculateSettlementsWithBreakdown bills members recs
     = Inr (List.map_filter (\<lambda>p. pairResult bd recs (memberMap members) (fst p) (snd p))
              (visitedPairs members))"
  using settleAll_result [OF debtsShape_processBills [OF assms], of recs] assms
  by (auto simp: calculateSettlementsWithBreakdown_def)



text \<open>
  The resolver returns whenever the coverage allocations above 0.01 of the bills it
  counts name two distinct roster ids; ids outside the roster in contributions, credit
  maps and settlement records never make it throw.
\<close>

lemma forEachE_total:
  assumes "\<And>x s. x \<in> set xs \<Longrightarrow> I s \<Longrightarrow> \<exists>s'. f x s = Inr s' \<and> I s'" and "I s"
  shows "\<exists>s'. forEachE f xs s = Inr s' \<and> I s'"
  using assms
proof (induction xs arbitrary: s)
  case Nil
  then show ?case by simp
next
  case (Cons x xs)
  from Cons.prems(1) [of x s] Cons.prems(2) obtain s1 where s1: "f x s = Inr s1" "I s1"
    by auto
  have "\<exists>s'. forEachE f xs s1 = Inr s' \<and> I s'"
    using Cons.prems(1) s1(2) by (intro Cons.IH) auto
  then show ?case
    using s1(1) by simp
qed

lemma inferPushes_slots:
  assumes "debtsShape members bd" and "p \<in> set (inferPushes members bill)"
  shows "lookupDebts bd (fst p) (fst (snd p)) \<noteq> None"
proof -
  from assms(2) obtain q where q: "q \<in> set (List.product (billDebtors members bill) (billCreditors members bill))"
    and p: "p = (person_id (fst q), person_id (snd q), inferredItem members bill q)"
    by (auto simp: inferPushes_def split: if_splits)
  from q have "fst q \<in> set members" "snd q \<in> set members"
    "netPosition members bill (person_id (fst q)) > 1 / 100"
    "netPosition members bill (person_id (snd q)) < - (1 / 100)"
    by (auto simp: billDebtors_def billCreditors_def)
  then have "person_id (fst q) \<in> roster members \<and> person_id (snd q) \<in> roster members
      \<and> person_id (fst q) \<noteq> person_id (snd q)"
    by (auto simp: roster_def)
  then show ?thesis
    using assms(1) p by (simp add: debtsShape_def)
qed

lemma processBill_returns:
  assumes "debtsShape members bd"
    and "\<And>cov a. coverageAllocations bill = Some cov \<Longrightarrow> a \<in> set cov \<Longrightarrow> cov_amount a > 1 / 100
           \<Longrightarrow> coveredId a \<in> roster members \<and> payerId a \<in> roster members \<and> coveredId a \<noteq> payerId a"
  shows "\<exists>bd'. processBill members bill bd = Inr bd' \<and> debtsShape members bd'"
proof (cases "coverageAllocations bill = None \<or> coverageAllocations bill = Some []")
  case True
  have "\<forall>p\<in>set (inferPushes members bill). lookupDebts bd (fst p) (fst (snd p)) \<noteq> None"
    using inferPushes_slots [OF assms(1)] by blast
  from pushAll_lookup [OF this] obtain bd' where "pushAll (inferPushes members bill) bd = Inr bd'"
    by blast
  then show ?thesis
    using processBill_inference [OF True, of members bd] debtsShape_pushAll [OF assms(1)] by simp
next
  case False
  then obtain cov where cov: "coverageAllocations bill = Some cov" "cov \<noteq> []"
    by auto
  have "\<forall>p\<in>set (coveragePushes members bill). lookupDebts bd (fst p) (fst (snd p)) \<noteq> None"
    using assms cov(1) by (auto simp: coveragePushes_def debtsShape_def)
  from pushAll_lookup [OF this] obtain bd' where "pushAll (coveragePushes members bill) bd = Inr bd'"
    by blast
  then show ?thesis
    using processBill_coverage [OF cov, of members bd] debtsShape_pushAll [OF assms(1)] by simp
qed

lemma resolver_completes:
  assumes "\<And>b cov a. b \<in> set bills \<Longrightarrow> paidBillFilter b \<Longrightarrow> coverageAllocations b = Some cov
             \<Longrightarrow> a \<in> set cov \<Longrightarrow> cov_amount a > 1 / 100
             \<Longrightarrow> coveredId a \<in> roster members \<and> payerId a \<in> roster members \<and> coveredId a \<noteq> payerId a"
  shows "\<exists>out. calculateSettlementsWithBreakdown bills members recs = Inr out"
proof -
  have "\<exists>bd. forEachE (processBill members) (filter paidBillFilter bills) (initBillDebts members) = Inr bd
      \<and> debtsShape members bd"
  proof (rule forEachE_total)
    show "debtsShape members (initBillDebts members)" by (rule debtsShape_init)
  next
    fix b bd
    assume "b \<in> set (filter paidBillFilter bills)" and "debtsShape members bd"
    then show "\<exists>bd'. processBill members b bd = Inr bd' \<and> debtsShape members bd'"
      using assms by (intro processBill_returns) auto
  qed
  then obtain bd where "processBills bills members = Inr bd"
    by (auto simp: processBills_def)
  then show ?thesis
    using resolver_output by blast
qed

text \<open>
  When no member id contains a hyphen, the keys of distinct pairs differ, the set of
  processed keys never skips a pair, and the resolver nets every pair of members with
  ids in ascending order exactly once.
\<close>

lemma split_at_separator:
  assumes "xs @ h # ys = xs' @ h # ys'" and "h \<notin> set xs" and "h \<notin> set xs'"
  shows "xs = xs' \<and> ys = ys'"
  using assms
proof (induction xs arbitrary: xs')
  case Nil
  then show ?case by (cases xs') auto
next
  case (Cons x xs)
  then show ?case by (cases xs') auto
qed

lemma pairKey_inj:
  assumes "CHR ''-'' \<notin> set (person_id a)" and "CHR ''-'' \<notin> set (person_id c)"
    and "pairKey a b = pairKey c d"
  shows "person_id a = person_id c \<and> person_id b = person_id d"
  using split_at_separator [of "person_id a" "CHR ''-''" "person_id b" "person_id c" "person_id d"] assms
  by (simp add: pairKey_def)

lemma visitPairs_filter:
  assumes "distinct ps"
    and "\<forall>p\<in>set ps. \<forall>q\<in>set ps. person_id (fst p) < person_id (snd p) \<longrightarrow>
           person_id (fst q) < person_id (snd q) \<longrightarrow>
           pairKey (fst p) (snd p) = pairKey (fst q) (snd q) \<longrightarrow> p = q"
    and "\<forall>p\<in>set ps. person_id (fst p) < person_id (snd p) \<longrightarrow> pairKey (fst p) (snd p) \<notin> seen"
  shows "visitPairs ps seen = filter (\<lambda>p. person_id (fst p) < person_id (snd p)) ps"
  using assms
proof (induction ps arbitrary: seen)
  case Nil
  then show ?case by simp
next
  case (Cons p ps)
  show ?case
  proof (cases "person_id (fst p) < person_id (snd p)")
    case True
    then have k: "pairKey (fst p) (snd p) \<notin> seen"
      using Cons.prems(3) by simp
    have "\<forall>q\<in>set ps. person_id (fst q) < person_id (snd q) \<longrightarrow>
            pairKey (fst q) (snd q) \<notin> insert (pairKey (fst p) (snd p)) seen"
    proof (intro ballI impI)
      fix q assume q: "q \<in> set ps" "person_id (fst q) < person_id (snd q)"
      have "p \<noteq> q" using Cons.prems(1) q(1) by auto
      then have "pairKey (fst p) (snd p) \<noteq> pairKey (fst q) (snd q)"
        using Cons.prems(2) True q by (metis list.set_intros(1) list.set_intros(2))
      then show "pairKey (fst q) (snd q) \<notin> insert (pairKey (fst p) (snd p)) seen"
        using Cons.prems(3) q by auto
    qed
    then have "visitPairs ps (insert (pairKey (fst p) (snd p)) seen)
        = filter (\<lambda>p. person_id (fst p) < person_id (snd p)) ps"
      using Cons.prems by (intro Cons.IH) auto
    moreover have "\<not> person_id (snd p) \<le> person_id (fst p)"
      using True by (simp add: not_le)
    ultimately show ?thesis
      using True k by simp
  next
    case False
    have "visitPairs ps seen = filter (\<lambda>p. person_id (fst p) < person_id (snd p)) ps"
      using Cons.prems by (intro Cons.IH) auto
    moreover have "person_id (snd p) \<le> person_id (fst p)"
      using False by (simp add: not_less)
    ultimately show ?thesis
      using False by simp
  qed
qed

lemma visitedPairs_no_hyphen:
  assumes "distinct (map person_id members)"
    and "\<forall>m\<in>set members. CHR ''-'' \<notin> set (person_id m)"
  shows "visitedPairs members
     = filter (\<lambda>p. person_id (fst p) < person_id (snd p)) (List.product members members)"
proof -
  have inj: "inj_on person_id (set members)" and dm: "distinct members"
    using assms(1) by (auto simp: distinct_map)
  have d: "distinct (List.product members members)"
    by (rule distinct_product [OF dm dm])
  have k: "\<forall>p\<in>set (List.product members members). \<forall>q\<in>set (List.product members members).
           person_id (fst p) < person_id (snd p) \<longrightarrow> person_id (fst q) < person_id (snd q) \<longrightarrow>
           pairKey (fst p) (snd p) = pairKey (fst q) (snd q) \<longrightarrow> p = q"
  proof (intro ballI impI)
    fix p q
    assume p: "p \<in> set (List.product members members)" and q: "q \<in> set (List.product members members)"
      and k: "pairKey (fst p) (snd p) = pairKey (fst q) (snd q)"
    then have mem: "fst p \<in> set members" "snd p \<in> set members" "fst q \<in> set members" "snd q \<in> set members"
      by auto
    then have "person_id (fst p) = person_id (fst q) \<and> person_id (snd p) = person_id (snd q)"
      using pairKey_inj [OF _ _ k] assms(2) by blast
    then have "fst p = fst q" "snd p = snd q"
      using inj mem by (auto dest: inj_onD)
    then show "p = q" by (simp add: prod_eq_iff)
  qed
  show ?thesis
    unfolding visitedPairs_def by (rule visitPairs_filter [OF d k]) simp
qed

lemma resolver_nets_each_pair_once:
  assumes "distinct (map person_id members)"
    and "\<forall>m\<in>set members. CHR ''-'' \<notin> set (person_id m)"
    and "processBills bills members = Inr bd"
  shows "calculateSettlementsWithBreakdown bills members recs
     = Inr (List.map_filter (\<lambda>p. pairResult bd recs (memberMap members) (fst p) (snd p))
              (filter (\<lambda>p. person_id (fst p) < person_id (snd p)) (List.product members members)))"
  using resolver_output [OF assms(3), of recs] visitedPairs_no_hyphen [OF assms(1,2)] by simp

text \<open>
  C1: every pair of distinct members is claimed to be netted exactly once, with a
  settlement whenever the net exceeds 0.01. The processed-pair key joins the two ids
  with a hyphen, and member ids are names with their spaces replaced by hyphens: the
  pairs (ann, marie-smith) and (ann-marie, smith) share the key \<open>ann-marie-smith\<close>.
  The second pair is skipped, and the 50 that ann-marie owes smith is never emitted.
\<close>

theorem resolver_skips_pair_on_key_collision:
  "calculateSettlementsWithBreakdown [hyphenBill] hyphenRoster None = Inr []
   \<and> (\<exists>bd. processBills [hyphenBill] hyphenRoster = Inr bd
         \<and> map_option totalOf (lookupDebts bd ''ann-marie'' ''smith'') = Some 50
         \<and> map_option totalOf (lookupDebts bd ''smith'' ''ann-marie'') = Some 0)
   \<and> pairKey (member ''ann'' ''Ann'') (member ''marie-smith'' ''Marie Smith'')
       = pairKey (member ''ann-marie'' ''Ann Marie'') (member ''smith'' ''Smith'')"
proof -
  have "calculateSettlementsWithBreakdown [hyphenBill] hyphenRoster None = Inr []"
    by code_simp
  moreover have "case processBills [hyphenBill] hyphenRoster of
      Inl e \<Rightarrow> False
    | Inr bd \<Rightarrow> map_option totalOf (lookupDebts bd ''ann-marie'' ''smith'') = Some 50
         \<and> map_option totalOf (lookupDebts bd ''smith'' ''ann-marie'') = Some 0"
    by code_simp
  then have "\<exists>bd. processBills [hyphenBill] hyphenRoster = Inr bd
         \<and> map_option totalOf (lookupDebts bd ''ann-marie'' ''smith'') = Some 50
         \<and> map_option totalOf (lookupDebts bd ''smith'' ''ann-marie'') = Some 0"
    by (auto split: sum.splits)
  moreover have "pairKey (member ''ann'' ''Ann'') (member ''marie-smith'' ''Marie Smith'')
       = pairKey (member ''ann-marie'' ''Ann Marie'') (member ''smith'' ''Smith'')"
    by (simp add: pairKey_def member_def)
  ultimately show ?thesis by blast
qed

subsection \<open>Attribution over all counted bills\<close>

text \<open>
  The loop over the counted bills is one sequence of pushes into the debt table: those
  of the coverage allocations for a bill that has them, those of proportional inference
  for any other bill. When every push finds its list, the list from \<open>d\<close> to \<open>c\<close> ends
  up holding the items of all counted bills, in bill order; a push that finds no list
  ends the resolver with a TypeError.
\<close>

lemma processBill_pushes:
  "processBill members bill bd =
     pushAll (if hasCoverage bill then coveragePushes members bill else inferPushes members bill) bd"
proof (cases "hasCoverage bill")
  case True
  then obtain cov where "coverageAllocations bill = Some cov" and "cov \<noteq> []"
    by (auto simp: hasCoverage_def)
  then show ?thesis
    using True processBill_coverage by simp
next
  case False
  then have "coverageAllocations bill = None \<or> coverageAllocations bill = Some []"
    by (cases "coverageAllocations bill") (auto simp: hasCoverage_def)
  then show ?thesis
    using False processBill_inference by simp
qed

lemma forEachE_pushAll_concat:
  "forEachE (\<lambda>x. pushAll (f x)) xs bd = pushAll (concat (map f xs)) bd"
  by (induction xs arbitrary: bd) (auto simp: pushAll_append split: sum.splits)

lemma itemsFor_append: "itemsFor (ps @ qs) d c = itemsFor ps d c @ itemsFor qs d c"
  by (simp add: itemsFor_def)

lemma itemsFor_concat:
  "itemsFor (concat (map f xs)) d c = concat (map (\<lambda>x. itemsFor (f x) d c) xs)"
  by (induction xs) (simp_all add: itemsFor_append itemsFor_Nil)

lemma billPushes_slots:
  assumes "validCoverage members bill"
    and "p \<in> set (if hasCoverage bill then coveragePushes members bill else inferPushes members bill)"
  shows "lookupDebts (initBillDebts members) (fst p) (fst (snd p)) \<noteq> None"
proof (cases "hasCoverage bill")
  case True
  then obtain cov where cov: "coverageAllocations bill = Some cov"
    by (auto simp: hasCoverage_def)
  with assms True show ?thesis
    by (auto simp: coveragePushes_def validCoverage_def list_all_iff lookupDebts_init)
next
  case False
  then show ?thesis
    using assms(2) inferPushes_slots [OF debtsShape_init] by simp
qed

lemma processBills_pushAll:
  "processBills bills members =
     pushAll (concat (map (\<lambda>b. if hasCoverage b then coveragePushes members b
                                else inferPushes members b)
                        (filter paidBillFilter bills)))
       (initBillDebts members)"
proof -
  have "processBill members =
      (\<lambda>b. pushAll (if hasCoverage b then coveragePushes members b else inferPushes members b))"
    by (intro ext) (rule processBill_pushes)
  then show ?thesis
    by (simp only: processBills_def forEachE_pushAll_concat)
qed

lemma processBills_table:
  assumes "\<forall>b\<in>set bills. paidBillFilter b \<longrightarrow> validCoverage members b"
  shows "\<exists>bd. processBills bills members = Inr bd
     \<and> (\<forall>d c. d \<in> roster members \<and> c \<in> roster members \<and> d \<noteq> c \<longrightarrow>
           lookupDebts bd d c =
             Some (concat (map (\<lambda>b. attributed members b d c) (filter paidBillFilter bills))))"
proof -
  let ?f = "\<lambda>b. if hasCoverage b then coveragePushes members b else inferPushes members b"
  let ?ps = "concat (map ?f (filter paidBillFilter bills))"
  have pb: "processBills bills members = pushAll ?ps (initBillDebts members)"
    by (rule processBills_pushAll)
  have ok: "\<forall>p\<in>set ?ps. lookupDebts (initBillDebts members) (fst p) (fst (snd p)) \<noteq> None"
    using assms billPushes_slots by fastforce
  from pushAll_lookup [OF ok] obtain bd where
    r: "pushAll ?ps (initBillDebts members) = Inr bd"
    and l: "\<forall>d c. lookupDebts bd d c =
              map_option (\<lambda>xs. xs @ itemsFor ?ps d c) (lookupDebts (initBillDebts members) d c)"
    by blast
  have "lookupDebts bd d c =
          Some (concat (map (\<lambda>b. attributed members b d c) (filter paidBillFilter bills)))"
    if "d \<in> roster members \<and> c \<in> roster members \<and> d \<noteq> c" for d c
    using that l by (simp add: lookupDebts_init itemsFor_concat attributed_def)
  then show ?thesis
    using pb r by auto
qed

lemma attributed_coverage:
  assumes "hasCoverage bill"
  shows "attributed members bill d c =
     map (\<lambda>a. \<lparr>billId = bill_id bill, billName = bill_name bill, bd_category = category bill,
                bd_dueDate = dueDate bill, totalAmount = amount bill,
                theirShare = orZero (map_of (calculateBillShares bill members) (coveredId a)),
                creditorPaid = cov_amount a\<rparr>)
       (filter (\<lambda>a. cov_amount a > 1 / 100 \<and> coveredId a = d \<and> payerId a = c)
          (the (coverageAllocations bill)))"
proof -
  from assms obtain cov where cov: "coverageAllocations bill = Some cov"
    by (auto simp: hasCoverage_def)
  show ?thesis
    using assms itemsFor_coveragePushes [OF cov] by (simp add: attributed_def cov)
qed



lemma emitsFor_breakdown:
  assumes "processBills bills members = Inr bd" and "emitsFor bills members recs a b s"
  shows "\<exists>xs ys. lookupDebts bd (person_id a) (person_id b) = Some xs
      \<and> lookupDebts bd (person_id b) (person_id a) = Some ys
      \<and> a \<in> set members \<and> b \<in> set members \<and> person_id a \<noteq> person_id b
      \<and> ((breakdown s = xs \<and> offsetBreakdown s = (if length ys > 0 then Some ys else None))
          \<or> (breakdown s = ys \<and> offsetBreakdown s = (if length xs > 0 then Some xs else None)))"
proof -
  from assms have v: "(a, b) \<in> set (visitedPairs members)"
    and sp: "settlePair bd recs (memberMap members) a b = Inr (Some s)"
    by (auto simp: emitsFor_def)
  note ab = visitedPairs_members [OF v]
  from sp obtain xs ys where xs: "lookupDebts bd (person_id a) (person_id b) = Some xs"
    and ys: "lookupDebts bd (person_id b) (person_id a) = Some ys"
    by (auto simp: settlePair_def split: option.splits)
  have "emitSettlement (memberMap members) a b xs ys
          (getForgivenBetween recs (person_id a) (person_id b))
          (getForgivenBetween recs (person_id b) (person_id a)) = Some s"
    using sp by (simp add: settlePair_def xs ys)
  then have "(breakdown s = xs \<and> offsetBreakdown s = (if length ys > 0 then Some ys else None))
          \<or> (breakdown s = ys \<and> offsetBreakdown s = (if length xs > 0 then Some xs else None))"
    by (auto simp: emitSettlement_def Let_def split: if_splits)
  then show ?thesis
    using xs ys ab by auto
qed

lemma emitsFor_concatOver:
  assumes "processBills bills members = Inr bd"
    and "\<forall>d c. d \<in> roster members \<and> c \<in> roster members \<and> d \<noteq> c \<longrightarrow>
           lookupDebts bd d c = Some (concatOver g bills d c)"
    and "emitsFor bills members recs a b s"
  shows "(breakdown s = concatOver g bills (person_id a) (person_id b)
          \<and> offsetBreakdown s =
              (if length (concatOver g bills (person_id b) (person_id a)) > 0
               then Some (concatOver g bills (person_id b) (person_id a)) else None))
       \<or> (breakdown s = concatOver g bills (person_id b) (person_id a)
          \<and> offsetBreakdown s =
              (if length (concatOver g bills (person_id a) (person_id b)) > 0
               then Some (concatOver g bills (person_id a) (person_id b)) else None))"
proof -
  from emitsFor_breakdown [OF assms(1,3)] obtain xs ys where
    xs: "lookupDebts bd (person_id a) (person_id b) = Some xs"
    and ys: "lookupDebts bd (person_id b) (person_id a) = Some ys"
    and m: "a \<in> set members" "b \<in> set members" "person_id a \<noteq> person_id b"
    and d: "(breakdown s = xs \<and> offsetBreakdown s = (if length ys > 0 then Some ys else None))
          \<or> (breakdown s = ys \<and> offsetBreakdown s = (if length xs > 0 then Some xs else None))"
    by blast
  have r: "person_id a \<in> roster members" "person_id b \<in> roster members"
    using m by (auto simp: roster_def)
  have X: "xs = concatOver g bills (person_id a) (person_id b)"
    using assms(2) r m(3) xs by auto
  have Y: "ys = concatOver g bills (person_id b) (person_id a)"
    using assms(2) r m(3) ys by (metis option.inject)
  from d show ?thesis
    unfolding X Y .
qed

lemma valid_completes:
  assumes "\<forall>b\<in>set bills. paidBillFilter b \<longrightarrow> validCoverage members b"
  shows "\<exists>out. calculateSettlementsWithBreakdown bills members recs = Inr out"
  using processBills_table [OF assms] resolver_output by blast


text \<open>
  C2, as stated, fails. A bill of 60 paid by Alice, with one allocation of 30 that
  covers Bob and one of 30 that covers an id outside the roster, is a qualifying bill
  whose allocations are present and non-empty; the resolver throws a TypeError and
  attributes nothing, not even the 30 that Bob owes Alice. It throws as well when the
  only allocation names Alice both as payer and as covered member.
\<close>

theorem coverage_throws_counterexample:
  "calculateSettlementsWithBreakdown [mixedCoverage] [alice, bob] None = Inl TypeError
   \<and> calculateSettlementsWithBreakdown [selfCoverage] [alice, bob] None = Inl TypeError"
  by code_simp

text \<open>
  C2, amended: when every allocation above 0.01 of the bills that the resolver counts
  names two distinct roster members, the resolver returns, and each counted bill whose
  coverage allocations are present and non-empty attributes, for each allocation above
  0.01, a debt of exactly that amount from \<open>coveredId\<close> to \<open>payerId\<close>, tagged with the
  bill's id, name, category, due date and amount and with the covered member's
  computed share (0 for a member without one), and nothing else: no proportional
  inference. The list from \<open>d\<close> to \<open>c\<close> of the debt table holds these items for all
  counted bills, in bill order, and a settlement that the resolver emits for a pair
  carries the lists of the pair's two directions as its breakdown and its offset
  breakdown. In the scenario of a bill of 60 split evenly, paid in full by A with an
  allocation of 30 covering B, the resolver yields exactly "B owes A 30".
\<close>

theorem coverage_debts_attributed:
  assumes "\<forall>b\<in>set bills. paidBillFilter b \<longrightarrow> validCoverage members b"
  shows "(\<exists>bd g. processBills bills members = Inr bd
       \<and> (\<forall>d c. d \<in> roster members \<and> c \<in> roster members \<and> d \<noteq> c \<longrightarrow>
             lookupDebts bd d c = Some (concatOver g bills d c))
       \<and> (\<forall>b d c. hasCoverage b \<longrightarrow>
             g b d c =
               map (\<lambda>a. \<lparr>billId = bill_id b, billName = bill_name b, bd_category = category b,
                          bd_dueDate = dueDate b, totalAmount = amount b,
                          theirShare = orZero (map_of (calculateBillShares b members) (coveredId a)),
                          creditorPaid = cov_amount a\<rparr>)
                 (filter (\<lambda>a. cov_amount a > 1 / 100 \<and> coveredId a = d \<and> payerId a = c)
                    (the (coverageAllocations b))))
       \<and> (\<forall>recs a b s. emitsFor bills members recs a b s \<longrightarrow>
             (breakdown s = concatOver g bills (person_id a) (person_id b)
              \<and> offsetBreakdown s =
                  (if length (concatOver g bills (person_id b) (person_id a)) > 0
                   then Some (concatOver g bills (person_id b) (person_id a)) else None))
             \<or> (breakdown s = concatOver g bills (person_id b) (person_id a)
              \<and> offsetBreakdown s =
                  (if length (concatOver g bills (person_id a) (person_id b)) > 0
                   then Some (concatOver g bills (person_id a) (person_id b)) else None))))
    \<and> (\<forall>recs. \<exists>out. calculateSettlementsWithBreakdown bills members recs = Inr out)
    \<and> calculateSettlementsWithBreakdown [coverageScenario] [alice, bob] None =
        Inr [\<lparr>s_from = ''Bob'', s_to = ''Alice'', s_amount = 30,
              breakdown = [\<lparr>billId = ''x'', billName = ''x'', bd_category = CatOther,
                            bd_dueDate = 19800, totalAmount = 60, theirShare = 30,
                            creditorPaid = 30\<rparr>],
              offsetBreakdown = None, grossOwed = Some 30, grossOffset = None, forgiven = None\<rparr>]"
proof -
  from processBills_table [OF assms] obtain bd where
    bd: "processBills bills members = Inr bd"
    and t: "\<forall>d c. d \<in> roster members \<and> c \<in> roster members \<and> d \<noteq> c \<longrightarrow>
             lookupDebts bd d c = Some (concatOver (attributed members) bills d c)"
    by (auto simp: concatOver_def)
  have c: "\<forall>b d c. hasCoverage b \<longrightarrow>
             attributed members b d c =
               map (\<lambda>a. \<lparr>billId = bill_id b, billName = bill_name b, bd_category = category b,
                          bd_dueDate = dueDate b, totalAmount = amount b,
                          theirShare = orZero (map_of (calculateBillShares b members) (coveredId a)),
                          creditorPaid = cov_amount a\<rparr>)
                 (filter (\<lambda>a. cov_amount a > 1 / 100 \<and> coveredId a = d \<and> payerId a = c)
                    (the (coverageAllocations b)))"
    using attributed_coverage by blast
  have e: "\<forall>recs a b s. emitsFor bills members recs a b s \<longrightarrow>
             (breakdown s = concatOver (attributed members) bills (person_id a) (person_id b)
              \<and> offsetBreakdown s =
                  (if length (concatOver (attributed members) bills (person_id b) (person_id a)) > 0
                   then Some (concatOver (attributed members) bills (person_id b) (person_id a)) else None))
             \<or> (breakdown s = concatOver (attributed members) bills (person_id b) (person_id a)
              \<and> offsetBreakdown s =
                  (if length (concatOver (attributed members) bills (person_id a) (person_id b)) > 0
                   then Some (concatOver (attributed members) bills (person_id a) (person_id b)) else None))"
    using emitsFor_concatOver [OF bd t] by blast
  have r: "\<forall>recs. \<exists>out. calculateSettlementsWithBreakdown bills members recs = Inr out"
    using valid_completes [OF assms] by blast
  have s: "calculateSettlementsWithBreakdown [coverageScenario] [alice, bob] None =
        Inr [\<lparr>s_from = ''Bob'', s_to = ''Alice'', s_amount = 30,
              breakdown = [\<lparr>billId = ''x'', billName = ''x'', bd_category = CatOther,
                            bd_dueDate = 19800, totalAmount = 60, theirShare = 30,
                            creditorPaid = 30\<rparr>],
              offsetBreakdown = None, grossOwed = Some 30, grossOffset = None, forgiven = None\<rparr>]"
    by code_simp
  from bd t c e have "\<exists>bd g. processBills bills members = Inr bd
       \<and> (\<forall>d c. d \<in> roster members \<and> c \<in> roster members \<and> d \<noteq> c \<longrightarrow>
             lookupDebts bd d c = Some (concatOver g bills d c))
       \<and> (\<forall>b d c. hasCoverage b \<longrightarrow>
             g b d c =
               map (\<lambda>a. \<lparr>billId = bill_id b, billName = bill_name b, bd_category = category b,
                          bd_dueDate = dueDate b, totalAmount = amount b,
                          theirShare = orZero (map_of (calculateBillShares b members) (coveredId a)),
                          creditorPaid = cov_amount a\<rparr>)
                 (filter (\<lambda>a. cov_amount a > 1 / 100 \<and> coveredId a = d \<and> payerId a = c)
                    (the (coverageAllocations b))))
       \<and> (\<forall>recs a b s. emitsFor bills members recs a b s \<longrightarrow>
             (breakdown s = concatOver g bills (person_id a) (person_id b)
              \<and> offsetBreakdown s =
                  (if length (concatOver g bills (person_id b) (person_id a)) > 0
                   then Some (concatOver g bills (person_id b) (person_id a)) else None))
             \<or> (breakdown s = concatOver g bills (person_id b) (person_id a)
              \<and> offsetBreakdown s =
                  (if length (concatOver g bills (person_id a) (person_id b)) > 0
                   then Some (concatOver g bills (person_id a) (person_id b)) else None)))"
    by (intro exI [of _ bd] exI [of _ "attributed members"] conjI)
  with r s show ?thesis by blast
qed

theorem coverage_debts_attributed_witness:
  "\<exists>bd. processBills [coverageScenario, coverageBack] [alice, bob] = Inr bd
     \<and> lookupDebts bd ''b'' ''a'' =
         Some [\<lparr>billId = ''x'', billName = ''x'', bd_category = CatOther,
                 bd_dueDate = 19800, totalAmount = 60, theirShare = 30, creditorPaid = 30\<rparr>]
     \<and> lookupDebts bd ''a'' ''b'' =
         Some [\<lparr>billId = ''y'', billName = ''y'', bd_category = CatOther,
                 bd_dueDate = 19800, totalAmount = 20, theirShare = 10, creditorPaid = 20\<rparr>]"
proof -
  let ?bills = "[coverageScenario, coverageBack]"
  let ?ms = "[alice, bob]"
  have h: "\<forall>b\<in>set ?bills. paidBillFilter b \<longrightarrow> validCoverage ?ms b"
    by (simp add: validCoverage_def coverageScenario_def coverageBack_def evenBill_def
        roster_def alice_def bob_def member_def)
  have f: "paidBillFilter coverageScenario" "paidBillFilter coverageBack"
    by code_simp+
  have hc: "hasCoverage coverageScenario" "hasCoverage coverageBack"
    by (simp_all add: hasCoverage_def coverageScenario_def coverageBack_def evenBill_def)
  have sh: "orZero (map_of (calculateBillShares coverageScenario ?ms) ''b'') = 30"
    "orZero (map_of (calculateBillShares coverageBack ?ms) ''a'') = 10"
    by code_simp+
  from coverage_debts_attributed [OF h] obtain bd g where
    bd: "processBills ?bills ?ms = Inr bd"
    and t: "\<forall>d c. d \<in> roster ?ms \<and> c \<in> roster ?ms \<and> d \<noteq> c \<longrightarrow>
             lookupDebts bd d c = Some (concatOver g ?bills d c)"
    and c: "\<forall>b d c. hasCoverage b \<longrightarrow>
             g b d c =
               map (\<lambda>a. \<lparr>billId = bill_id b, billName = bill_name b, bd_category = category b,
                          bd_dueDate = dueDate b, totalAmount = amount b,
                          theirShare = orZero (map_of (calculateBillShares b ?ms) (coveredId a)),
                          creditorPaid = cov_amount a\<rparr>)
                 (filter (\<lambda>a. cov_amount a > 1 / 100 \<and> coveredId a = d \<and> payerId a = c)
                    (the (coverageAllocations b)))"
    by blast
  have r: "''a'' \<in> roster ?ms" "''b'' \<in> roster ?ms"
    by (simp_all add: roster_def alice_def bob_def member_def)
  have g1: "g coverageScenario ''b'' ''a'' =
      [\<lparr>billId = ''x'', billName = ''x'', bd_category = CatOther,
         bd_dueDate = 19800, totalAmount = 60, theirShare = 30, creditorPaid = 30\<rparr>]"
    and g2: "g coverageBack ''b'' ''a'' = []"
    and g3: "g coverageScenario ''a'' ''b'' = []"
    and g4: "g coverageBack ''a'' ''b'' =
      [\<lparr>billId = ''y'', billName = ''y'', bd_category = CatOther,
         bd_dueDate = 19800, totalAmount = 20, theirShare = 10, creditorPaid = 20\<rparr>]"
    using c hc sh by (simp_all add: coverageScenario_def coverageBack_def evenBill_def)
  have "lookupDebts bd ''b'' ''a'' = Some (concatOver g ?bills ''b'' ''a'')"
    and "lookupDebts bd ''a'' ''b'' = Some (concatOver g ?bills ''a'' ''b'')"
    using t r by simp_all
  then show ?thesis
    using bd by (simp add: concatOver_def f g1 g2 g3 g4)
qed



subsection \<open>Settlement records\<close>















subsection \<open>The simple projection\<close>

text \<open>
  C10: calculateSettlements returns the settlements of
  calculateSettlementsWithBreakdown on the same inputs, projected to \<open>from\<close>, \<open>to\<close> and
  \<open>amount\<close>, in the same order and with the same length (and throws when it throws).
\<close>

theorem calculateSettlements_projection:
  "(\<forall>ws. calculateSettlementsWithBreakdown bills members recs = Inr ws \<longrightarrow>
      (\<exists>ss. calculateSettlements bills members recs = Inr ss \<and> length ss = length ws
         \<and> (\<forall>i<length ws. ss_from (ss ! i) = s_from (ws ! i) \<and> ss_to (ss ! i) = s_to (ws ! i)
                \<and> ss_amount (ss ! i) = s_amount (ws ! i))))
   \<and> (\<forall>e. calculateSettlementsWithBreakdown bills members recs = Inl e \<longrightarrow>
         calculateSettlements bills members recs = Inl e)"
  by (simp add: calculateSettlements_def)

theorem calculateSettlements_projection_witness:
  "calculateSettlements nettingScenario [alice, bob] None =
     Inr [\<lparr>ss_from = ''Alice'', ss_to = ''Bob'', ss_amount = 30\<rparr>]"
proof -
  have w: "calculateSettlementsWithBreakdown nettingScenario [alice, bob] None =
    Inr [\<lparr>s_from = ''Alice'', s_to = ''Bob'', s_amount = 30,
         breakdown = [\<lparr>billId = ''x'', billName = ''x'', bd_category = CatOther,
               bd_dueDate = 19800, totalAmount = 100, theirShare = 50, creditorPaid = 50\<rparr>],
         offsetBreakdown = Some [\<lparr>billId = ''y'', billName = ''y'', bd_category = CatOther,
                bd_dueDate = 19800, totalAmount = 20, theirShare = 10, creditorPaid = 20\<rparr>],
         grossOwed = Some 50, grossOffset = Some 20, forgiven = None\<rparr>]"
    by code_simp
  from calculateSettlements_projection [of nettingScenario "[alice, bob]" None] w
  obtain ss where ss: "calculateSettlements nettingScenario [alice, bob] None = Inr ss"
    and len: "length ss = 1"
    and el: "ss_from (ss ! 0) = ''Alice'' \<and> ss_to (ss ! 0) = ''Bob'' \<and> ss_amount (ss ! 0) = 30"
    by auto
  from len obtain x where x: "ss = [x]"
    by (cases ss) auto
  with el have "x = \<lparr>ss_from = ''Alice'', ss_to = ''Bob'', ss_amount = 30\<rparr>"
    by (cases x) simp
  with ss x show ?thesis by simp
qed

end
